theory Spec2Isabelle
  imports Main "HOL-Library.Sublist"
begin

section \<open>The logging engine of include/logger.hpp\<close>

text \<open>
  A shallow embedding of \<^verbatim>\<open>Logger\<close> and \<^verbatim>\<open>Logger::Impl\<close>. The engine is a pair of the
  object's fields (\<open>Impl\<close>) and the part of the outside world it acts on (\<open>world\<close>: the
  console, the filesystem, the clock). Every method is a function on that pair. The
  background thread is a small-step machine (\<open>worker_step\<close>) whose program counter is the
  value of \<open>logging_thread\<close>; its states tell which of the two mutexes the worker holds
  and whether it sleeps on the condition variable. A caller's method runs between two
  worker steps; where it takes a mutex the worker holds, the worker runs on until it lets
  go, and where neither can go on, the call does not return (\<open>None\<close>).
\<close>

subsection \<open>Enumerations\<close>

datatype LogLevel = TRACE | DEBUG | INFO | WARN | ERROR | CRITICAL

text \<open>The enumerators' values; \<^verbatim>\<open>level < current_log_level\<close> compares them.\<close>

fun level_value :: "LogLevel \<Rightarrow> nat" where
  "level_value TRACE = 0"
| "level_value DEBUG = 1"
| "level_value INFO = 2"
| "level_value WARN = 3"
| "level_value ERROR = 4"
| "level_value CRITICAL = 5"

datatype LogTarget = CONSOLE | FILE | BOTH

fun logLevelToString :: "LogLevel \<Rightarrow> string" where
  "logLevelToString TRACE = ''TRACE''"
| "logLevelToString DEBUG = ''DEBUG''"
| "logLevelToString INFO = ''INFO''"
| "logLevelToString WARN = ''WARN''"
| "logLevelToString ERROR = ''ERROR''"
| "logLevelToString CRITICAL = ''CRITICAL''"

fun logTargetToString :: "LogTarget \<Rightarrow> string" where
  "logTargetToString CONSOLE = ''CONSOLE''"
| "logTargetToString FILE = ''FILE''"
| "logTargetToString BOTH = ''BOTH''"

subsection \<open>Text output: decimal numbers and field widths\<close>

definition digit_char :: "nat \<Rightarrow> char" where
  "digit_char d = ''0123456789'' ! d"

text \<open>\<^verbatim>\<open>std::to_string\<close> and \<^verbatim>\<open>operator<<\<close> on a non-negative integer.\<close>

fun to_string :: "nat \<Rightarrow> string" where
  "to_string n =
     (if n < 10 then [digit_char n] else to_string (n div 10) @ [digit_char (n mod 10)])"

declare to_string.simps [simp del]

text \<open>
  What a stream inserts for a string when its width is \<open>w\<close> and its fill character is
  \<open>c\<close>: the adjustment is the stream's default (the source never sets \<^verbatim>\<open>std::left\<close>), so
  the fill characters come first and the text is flush right. A text longer than the
  width is not cut.
\<close>

definition setw_fill :: "nat \<Rightarrow> char \<Rightarrow> string \<Rightarrow> string" where
  "setw_fill w c s = replicate (w - length s) c @ s"

subsection \<open>The formatter\<close>

text \<open>
  What one call of \<^verbatim>\<open>formatLogMessage\<close> reads from its environment: the broken-down local
  time (\<^verbatim>\<open>struct tm\<close>: \<open>tm_year\<close> counts from 1900, \<open>tm_mon\<close> from 0), the time since the
  epoch in milliseconds, and the text that \<^verbatim>\<open>operator<<\<close> prints for the calling thread's
  id.
\<close>

record stamp =
  tm_year :: nat
  tm_mon :: nat
  tm_mday :: nat
  tm_hour :: nat
  tm_min :: nat
  tm_sec :: nat
  epoch_ms :: nat
  thread_id :: string

text \<open>\<^verbatim>\<open>std::put_time(tm, "%Y-%m-%d %H:%M:%S")\<close>.\<close>

definition put_time :: "stamp \<Rightarrow> string" where
  "put_time st =
     to_string (1900 + tm_year st) @ ''-'' @
     setw_fill 2 CHR ''0'' (to_string (tm_mon st + 1)) @ ''-'' @
     setw_fill 2 CHR ''0'' (to_string (tm_mday st)) @ '' '' @
     setw_fill 2 CHR ''0'' (to_string (tm_hour st)) @ '':'' @
     setw_fill 2 CHR ''0'' (to_string (tm_min st)) @ '':'' @
     setw_fill 2 CHR ''0'' (to_string (tm_sec st))"

text \<open>
  \<^verbatim>\<open>setfill('0')\<close> is set for the milliseconds and never reset, and a stream keeps its fill
  character: the two \<^verbatim>\<open>setw\<close> fields that follow are filled with \<^verbatim>\<open>'0'\<close> as well.
\<close>

definition formatLogMessage :: "stamp \<Rightarrow> LogLevel \<Rightarrow> string \<Rightarrow> string \<Rightarrow> string" where
  "formatLogMessage st level modname message =
     put_time st @
     ''.'' @ setw_fill 3 CHR ''0'' (to_string (epoch_ms st mod 1000)) @
     '' ['' @ thread_id st @ '']'' @
     '' ['' @ setw_fill 8 CHR ''0'' (logLevelToString level) @ '']'' @
     '' ['' @ setw_fill 15 CHR ''0'' modname @ ''] '' @
     message"

subsection \<open>The engine's state and its environment\<close>

text \<open>
  Where the background thread stands in \<^verbatim>\<open>loggingWorker\<close>:
  \<^item> \<open>WTop\<close>: at the test of the outer \<^verbatim>\<open>while\<close>;
  \<^item> \<open>WWait\<close>: at \<^verbatim>\<open>std::unique_lock lock(queue_mutex)\<close> and the first test of the
    predicate of \<^verbatim>\<open>queue_condition.wait\<close>, or woken and about to lock and test again;
  \<^item> \<open>WBlocking\<close>: the predicate was false; the worker holds \<^verbatim>\<open>queue_mutex\<close> and is about
    to release it and sleep;
  \<^item> \<open>WBlocked n\<close>: asleep on the condition variable since the \<open>n\<close>-th notification;
  \<^item> \<open>WInner\<close>: \<^verbatim>\<open>wait\<close> has returned; the worker holds \<^verbatim>\<open>queue_mutex\<close> and is at the test
    of the inner \<^verbatim>\<open>while\<close>;
  \<^item> \<open>WWrite message\<close>: the record is popped and \<^verbatim>\<open>queue_mutex\<close> released; the worker is
    about to call \<^verbatim>\<open>writeLogMessage(message)\<close> and holds no mutex;
  \<^item> \<open>WRotated\<close>: inside \<^verbatim>\<open>writeLogMessage\<close>, holding \<^verbatim>\<open>log_mutex\<close>; the files are rotated
    and the path reopened, and the worker is at the call of \<^verbatim>\<open>logMessage\<close> that ends
    \<^verbatim>\<open>rotateLogFile\<close>;
  \<^item> \<open>WRelock\<close>: \<^verbatim>\<open>writeLogMessage\<close> has returned; the worker holds no mutex and is at
    \<^verbatim>\<open>lock.lock()\<close>, before the test of the inner \<^verbatim>\<open>while\<close>;
  \<^item> \<open>WExit\<close>: past the end of the function.
\<close>

datatype worker_pc =
    WTop | WWait | WBlocking | WBlocked nat | WInner | WWrite string | WRotated | WRelock
  | WExit

text \<open>
  The fields of \<^verbatim>\<open>Logger::Impl\<close>. \<open>log_file\<close> is \<^verbatim>\<open>log_file.is_open()\<close>;
  \<open>logging_thread\<close> is \<open>None\<close> when the \<^verbatim>\<open>std::thread\<close> is not joinable. The two
  \<^verbatim>\<open>size_t\<close> fields hold numbers below \<open>2 ^ 64\<close>. The two mutexes and the condition
  variable have no field: who holds a mutex is read off the worker's program counter and
  off the caller's place in its method.
\<close>

record Impl =
  current_log_level :: LogLevel
  log_target :: LogTarget
  log_file_path :: string
  max_file_size_bytes :: nat
  max_backup_files :: nat
  log_file :: bool
  log_queue :: "string list"
  logging_thread :: "worker_pc option"
  should_stop :: bool

text \<open>The default member initialisers: the state that \<^verbatim>\<open>std::make_unique<Impl>()\<close> builds.\<close>

definition Impl_default :: Impl where
  "Impl_default =
     \<lparr>current_log_level = INFO, log_target = BOTH,
      log_file_path = ''inference_service.log'',
      max_file_size_bytes = 10 * 1024 * 1024, max_backup_files = 5,
      log_file = False, log_queue = [], logging_thread = None, should_stop = False\<rparr>"

text \<open>The lines the engine sends to \<^verbatim>\<open>std::cerr\<close>, without the text of \<^verbatim>\<open>e.what()\<close>.\<close>

datatype diagnostic = FailedToOpen string | ExceptionOpening | RotationFailed

text \<open>
  What the filesystem answers when \<^verbatim>\<open>openLogFile\<close> creates the parent directory and opens
  a path: it opens, \<^verbatim>\<open>open\<close> fails, or \<^verbatim>\<open>create_directories\<close> throws.
\<close>

datatype open_outcome = Opens | OpenFails | OpenThrows

text \<open>
  The calls the engine makes on the file stream, the filesystem, the condition variable
  and the thread, in the order it makes them. \<open>EvWaitFor t\<close> is the return of
  \<^verbatim>\<open>wait_for\<close>, \<open>t\<close> milliseconds after the call. A call of the filesystem that throws
  leaves no event.
\<close>

datatype event =
    EvCreateDirectories string | EvOpen string | EvWrite string | EvFlush | EvClose
  | EvRemove string | EvRename string string
  | EvNotifyOne | EvNotifyAll | EvWaitFor nat | EvThreadStart | EvJoin

text \<open>
  The world: the lines on \<^verbatim>\<open>std::cout\<close> and \<^verbatim>\<open>std::cerr\<close>, the regular files by path,
  the outcome of opening each path, the faults of the filesystem (\<open>fs_fault n\<close> says that
  a \<^verbatim>\<open>file_size\<close>, \<^verbatim>\<open>remove\<close> or \<^verbatim>\<open>rename\<close> called when the trace holds \<open>n\<close> events throws),
  the readings of the clock and of the calling thread's id (the \<open>n\<close>-th call of
  \<^verbatim>\<open>formatLogMessage\<close> reads \<open>clock n\<close>), and the trace of calls.
\<close>

record world =
  cout :: "string list"
  cerr :: "diagnostic list"
  files :: "string \<rightharpoonup> string"
  on_open :: "string \<Rightarrow> open_outcome"
  fs_fault :: "nat \<Rightarrow> bool"
  clock :: "nat \<Rightarrow> stamp"
  clock_reads :: nat
  trace :: "event list"

type_synonym state = "Impl \<times> world"

text \<open>Whether a call of the filesystem made now throws.\<close>

definition fs_throws :: "world \<Rightarrow> bool" where
  "fs_throws w = fs_fault w (length (trace w))"

text \<open>
  The notifications sent on \<^verbatim>\<open>queue_condition\<close> so far. A thread asleep on the condition
  variable since the \<open>n\<close>-th notification is woken by the next one.
\<close>

fun is_notify :: "event \<Rightarrow> bool" where
  "is_notify EvNotifyOne = True"
| "is_notify EvNotifyAll = True"
| "is_notify e = False"

definition notified :: "world \<Rightarrow> nat" where
  "notified w = length (filter is_notify (trace w))"

subsection \<open>Logging a record\<close>

text \<open>
  The push is made under \<^verbatim>\<open>queue_mutex\<close>: the function is called in states in which the
  worker does not hold that mutex (see \<open>lock_queue\<close> below). The notification is sent
  after the mutex is released.
\<close>

fun logMessage :: "LogLevel \<Rightarrow> string \<Rightarrow> string \<Rightarrow> state \<Rightarrow> state" where
  "logMessage level modname message (i, w) =
     (if level_value level < level_value (current_log_level i) then (i, w)
      else
        (i\<lparr>log_queue := log_queue i @
              [formatLogMessage (clock w (clock_reads w)) level modname message]\<rparr>,
         w\<lparr>clock_reads := Suc (clock_reads w), trace := trace w @ [EvNotifyOne]\<rparr>))"

subsection \<open>The file target and its rotation\<close>

text \<open>
  \<^verbatim>\<open>std::filesystem::path::parent_path\<close> of a path written with single \<^verbatim>\<open>/\<close>
  separators: the text before the last separator; the root \<^verbatim>\<open>/\<close> when that text is
  empty; the empty path for a bare file name.
\<close>

definition parent_path :: "string \<Rightarrow> string" where
  "parent_path p =
     (if CHR ''/'' \<notin> set p then []
      else (let d = rev (drop 1 (dropWhile (\<lambda>c. c \<noteq> CHR ''/'') (rev p)))
            in if d = [] then ''/'' else d))"

text \<open>
  \<^verbatim>\<open>create_directories(parent_path)\<close>, then \<^verbatim>\<open>log_file.open(path, std::ios::app)\<close>, which
  creates the file when it is missing and keeps its content otherwise (\<open>EvOpen\<close> is an
  \<^verbatim>\<open>open\<close> that succeeded). A failure leaves the stream as it was and reports to
  \<^verbatim>\<open>std::cerr\<close>. An \<^verbatim>\<open>open\<close> on a stream that is open already fails too, but the
  stream stays open and \<^verbatim>\<open>is_open()\<close> holds, so nothing is reported; the error state of
  the stream is not part of the model.
\<close>

fun openLogFile :: "state \<Rightarrow> state" where
  "openLogFile (i, w) =
     (let w1 = w\<lparr>trace := trace w @ [EvCreateDirectories (parent_path (log_file_path i))]\<rparr>
      in case on_open w (log_file_path i) of
           OpenThrows \<Rightarrow> (i, w1\<lparr>cerr := cerr w @ [ExceptionOpening]\<rparr>)
         | OpenFails \<Rightarrow>
             (if log_file i then (i, w1)
              else (i, w1\<lparr>cerr := cerr w @ [FailedToOpen (log_file_path i)]\<rparr>))
         | Opens \<Rightarrow>
             (if log_file i then (i, w1)
              else (i\<lparr>log_file := True\<rparr>,
                    w1\<lparr>files := (files w)(log_file_path i \<mapsto>
                           (case files w (log_file_path i) of None \<Rightarrow> [] | Some c \<Rightarrow> c)),
                       trace := trace w1 @ [EvOpen (log_file_path i)]\<rparr>)))"

text \<open>
  \<^verbatim>\<open>log_file << message << std::endl; log_file.flush();\<close> on the open stream. When no
  file is left at the path, the bytes go to a file that no path names.
\<close>

definition file_write :: "string \<Rightarrow> string \<Rightarrow> world \<Rightarrow> world" where
  "file_write p message w =
     w\<lparr>files := (case files w p of
                   None \<Rightarrow> files w
                 | Some c \<Rightarrow> (files w)(p \<mapsto> c @ message @ [CHR 0x0A])),
       trace := trace w @ [EvWrite (message @ [CHR 0x0A]), EvFlush, EvFlush]\<rparr>"

text \<open>
  \<^verbatim>\<open>std::filesystem::file_size\<close> throws for a missing file and when the filesystem
  refuses the call, and the \<^verbatim>\<open>catch\<close> answers \<^verbatim>\<open>false\<close>.
\<close>

fun needsRotation :: "state \<Rightarrow> bool" where
  "needsRotation (i, w) =
     (if \<not> log_file i then False
      else (case files w (log_file_path i) of
              None \<Rightarrow> False
            | Some c \<Rightarrow> if fs_throws w then False else max_file_size_bytes i \<le> length c))"

text \<open>\<^verbatim>\<open>std::filesystem::remove\<close> of an existing file, when it does not throw.\<close>

definition fs_remove :: "string \<Rightarrow> world \<Rightarrow> world" where
  "fs_remove p w = w\<lparr>files := (files w)(p := None), trace := trace w @ [EvRemove p]\<rparr>"

text \<open>
  \<^verbatim>\<open>std::filesystem::rename\<close> of an existing file, when it does not throw; a file at the
  new path is replaced.
\<close>

definition fs_rename :: "string \<Rightarrow> string \<Rightarrow> world \<Rightarrow> world" where
  "fs_rename old new w =
     (if old = new then w\<lparr>trace := trace w @ [EvRename old new]\<rparr>
      else w\<lparr>files := (files w)(new := files w old, old := None),
             trace := trace w @ [EvRename old new]\<rparr>)"

text \<open>
  \<^verbatim>\<open>max_backup_files - 1\<close> is computed in \<^verbatim>\<open>size_t\<close> (\<open>backups_top\<close>); the loop variable
  is an \<^verbatim>\<open>int\<close> initialised from it (\<open>loop_start\<close>: the low 32 bits, and a negative value
  never enters the loop, like 0).
\<close>

definition backups_top :: "nat \<Rightarrow> nat" where
  "backups_top n = (n + 2 ^ 64 - 1) mod 2 ^ 64"

definition loop_start :: "nat \<Rightarrow> nat" where
  "loop_start n = (let u = backups_top n mod 2 ^ 32 in if u < 2 ^ 31 then u else 0)"

text \<open>
  The \<^verbatim>\<open>for\<close> loop of \<^verbatim>\<open>rotateLogFile\<close>, from \<open>i\<close> down to 1: an existing \<^verbatim>\<open>path.i\<close> is
  removed when \<open>i\<close> equals \<^verbatim>\<open>max_backup_files - 1\<close> and renamed to \<^verbatim>\<open>path.(i+1)\<close> otherwise.
  The result says whether the loop ran to its end (\<open>True\<close>) or was left by an exception
  of \<^verbatim>\<open>remove\<close> or \<^verbatim>\<open>rename\<close> (\<open>False\<close>), and gives the world at that point.
\<close>

fun rotate_backups :: "nat \<Rightarrow> nat \<Rightarrow> string \<Rightarrow> world \<Rightarrow> bool \<times> world" where
  "rotate_backups 0 oldest p w = (True, w)"
| "rotate_backups (Suc k) oldest p w =
     (let old_backup = p @ ''.'' @ to_string (Suc k);
          new_backup = p @ ''.'' @ to_string (Suc k + 1)
      in if files w old_backup \<noteq> None
         then (if fs_throws w then (False, w)
               else rotate_backups k oldest p
                      (if Suc k = oldest then fs_remove old_backup w
                       else fs_rename old_backup new_backup w))
         else rotate_backups k oldest p w)"

text \<open>
  \<^verbatim>\<open>rotateLogFile\<close> up to its last statement: the stream is closed; in the \<^verbatim>\<open>try\<close> block
  the backups are shifted and the active file is renamed to \<^verbatim>\<open>path.1\<close>, which throws when
  the active file is missing or the filesystem refuses; an exception, of the loop or of
  that \<^verbatim>\<open>rename\<close>, skips the rest of the block and is reported by the \<^verbatim>\<open>catch\<close>; then the
  path is opened again.
\<close>

fun rotate_files :: "state \<Rightarrow> state" where
  "rotate_files (i, w) =
     (let p = log_file_path i;
          w1 = w\<lparr>trace := trace w @ [EvClose]\<rparr>;
          r = rotate_backups (loop_start (max_backup_files i))
                (backups_top (max_backup_files i)) p w1;
          w2 = snd r;
          w3 = (if fst r \<and> files w2 p \<noteq> None \<and> \<not> fs_throws w2
                then fs_rename p (p @ ''.1'') w2
                else w2\<lparr>cerr := cerr w2 @ [RotationFailed]\<rparr>)
      in openLogFile (i\<lparr>log_file := False\<rparr>, w3))"

fun rotateLogFile :: "state \<Rightarrow> state" where
  "rotateLogFile (i, w) = logMessage INFO ''LOGGER'' ''Log file rotated'' (rotate_files (i, w))"

text \<open>The first statement of \<^verbatim>\<open>writeLogMessage\<close>: the line on \<^verbatim>\<open>std::cout\<close>.\<close>

fun console_write :: "string \<Rightarrow> state \<Rightarrow> world" where
  "console_write message (i, w) =
     (if log_target i = CONSOLE \<or> log_target i = BOTH
      then w\<lparr>cout := cout w @ [message]\<rparr> else w)"

fun writeLogMessage :: "string \<Rightarrow> state \<Rightarrow> state" where
  "writeLogMessage message (i, w) =
     (let w1 = console_write message (i, w)
      in if (log_target i = FILE \<or> log_target i = BOTH) \<and> log_file i
         then (let w2 = file_write (log_file_path i) message w1
               in if needsRotation (i, w2) then rotateLogFile (i, w2) else (i, w2))
         else (i, w1))"

text \<open>
  \<^verbatim>\<open>writeLogMessage\<close> up to the one place where it takes a second mutex, the call of
  \<^verbatim>\<open>logMessage\<close> that ends \<^verbatim>\<open>rotateLogFile\<close>. The result says whether the worker stands
  at that call (\<open>True\<close>), still holding \<^verbatim>\<open>log_mutex\<close>, or has returned (\<open>False\<close>).
\<close>

fun write_targets :: "string \<Rightarrow> state \<Rightarrow> bool \<times> state" where
  "write_targets message (i, w) =
     (let w1 = console_write message (i, w)
      in if (log_target i = FILE \<or> log_target i = BOTH) \<and> log_file i
         then (let w2 = file_write (log_file_path i) message w1
               in if needsRotation (i, w2) then (True, rotate_files (i, w2))
                  else (False, (i, w2)))
         else (False, (i, w1)))"

subsection \<open>The background worker\<close>

text \<open>
  One step of \<^verbatim>\<open>loggingWorker\<close>. The test of the predicate of \<^verbatim>\<open>wait\<close> and the sleep that
  follows a false answer are two steps: both are made under \<^verbatim>\<open>queue_mutex\<close>, but the stop
  flag is stored without that mutex, so the store and its notification can fall between
  them. A sleeping worker moves when a notification has been sent since it fell asleep
  (a wake-up that no notification causes is not part of the model), and one that has
  returned does not move.
\<close>

fun worker_step :: "state \<Rightarrow> state" where
  "worker_step (i, w) =
     (case logging_thread i of
        None \<Rightarrow> (i, w)
      | Some WTop \<Rightarrow>
          (if \<not> should_stop i \<or> log_queue i \<noteq> []
           then (i\<lparr>logging_thread := Some WWait\<rparr>, w)
           else (i\<lparr>logging_thread := Some WExit\<rparr>, w))
      | Some WWait \<Rightarrow>
          (if log_queue i \<noteq> [] \<or> should_stop i
           then (i\<lparr>logging_thread := Some WInner\<rparr>, w)
           else (i\<lparr>logging_thread := Some WBlocking\<rparr>, w))
      | Some WBlocking \<Rightarrow> (i\<lparr>logging_thread := Some (WBlocked (notified w))\<rparr>, w)
      | Some (WBlocked n) \<Rightarrow>
          (if n < notified w then (i\<lparr>logging_thread := Some WWait\<rparr>, w) else (i, w))
      | Some WInner \<Rightarrow>
          (case log_queue i of
             [] \<Rightarrow> (i\<lparr>logging_thread := Some WTop\<rparr>, w)
           | message # rest \<Rightarrow>
               (i\<lparr>log_queue := rest, logging_thread := Some (WWrite message)\<rparr>, w))
      | Some (WWrite message) \<Rightarrow>
          (case write_targets message (i, w) of
             (at_call, (i', w')) \<Rightarrow>
               (i'\<lparr>logging_thread := Some (if at_call then WRotated else WRelock)\<rparr>, w'))
      | Some WRotated \<Rightarrow>
          (case logMessage INFO ''LOGGER'' ''Log file rotated'' (i, w) of
             (i', w') \<Rightarrow> (i'\<lparr>logging_thread := Some WRelock\<rparr>, w'))
      | Some WRelock \<Rightarrow>
          (case log_queue i of
             [] \<Rightarrow> (i\<lparr>logging_thread := Some WTop\<rparr>, w)
           | message # rest \<Rightarrow>
               (i\<lparr>log_queue := rest, logging_thread := Some (WWrite message)\<rparr>, w))
      | Some WExit \<Rightarrow> (i, w))"

fun worker_steps :: "nat \<Rightarrow> state \<Rightarrow> state" where
  "worker_steps 0 s = s"
| "worker_steps (Suc k) s = worker_steps k (worker_step s)"

text \<open>
  A caller locks \<^verbatim>\<open>queue_mutex\<close>: a worker that holds it makes the step that releases it
  first.
\<close>

fun lock_queue :: "state \<Rightarrow> state" where
  "lock_queue (i, w) =
     (if logging_thread i = Some WInner \<or> logging_thread i = Some WBlocking
      then worker_step (i, w) else (i, w))"

text \<open>
  A step of the worker while a caller holds \<^verbatim>\<open>queue_mutex\<close>: the worker makes the steps
  that do not lock that mutex, and stands still at the others. At the call of
  \<^verbatim>\<open>logMessage\<close> in \<^verbatim>\<open>rotateLogFile\<close> it goes on only when the record is filtered out,
  since \<^verbatim>\<open>logMessage\<close> then returns before it locks.
\<close>

fun locked_step :: "state \<Rightarrow> state" where
  "locked_step (i, w) =
     (case logging_thread i of
        Some WTop \<Rightarrow> worker_step (i, w)
      | Some (WWrite message) \<Rightarrow> worker_step (i, w)
      | Some WRotated \<Rightarrow>
          (if level_value INFO < level_value (current_log_level i) then worker_step (i, w)
           else (i, w))
      | _ \<Rightarrow> (i, w))"

fun locked_steps :: "nat \<Rightarrow> state \<Rightarrow> state" where
  "locked_steps 0 s = s"
| "locked_steps (Suc k) s = locked_steps k (locked_step s)"

subsection \<open>Flush\<close>

definition flush_timeout_ms :: nat where
  "flush_timeout_ms = 1000"

text \<open>
  \<^verbatim>\<open>queue_condition.wait_for(lock, timeout, pred)\<close>, which is
  \<^verbatim>\<open>while (!pred()) if (wait_until(lock, deadline) == timeout) return pred(); return true;\<close>
  with the predicate of \<^verbatim>\<open>flush\<close>, called with \<^verbatim>\<open>queue_mutex\<close> held. The environment is
  the list of the caller's wake-ups: \<open>(k, t)\<close> says that the worker made \<open>k\<close> steps while
  the caller slept and that the caller woke \<open>t\<close> milliseconds after the call (a wake-up at
  or past the deadline is the time-out); on waking the caller locks the mutex again. With
  no wake-up left the caller sleeps until the deadline. The result is the time of the
  return and the state then.
\<close>

fun flush_wait :: "nat \<Rightarrow> (nat \<times> nat) list \<Rightarrow> state \<Rightarrow> nat \<times> state" where
  "flush_wait t [] (i, w) =
     (if log_queue i = [] \<or> should_stop i then (t, (i, w)) else (flush_timeout_ms, (i, w)))"
| "flush_wait t ((k, t') # env) (i, w) =
     (if log_queue i = [] \<or> should_stop i then (t, (i, w))
      else if flush_timeout_ms \<le> t' then (t', lock_queue (worker_steps k (i, w)))
      else flush_wait t' env (lock_queue (worker_steps k (i, w))))"

text \<open>
  \<^verbatim>\<open>flush\<close>: the caller locks \<^verbatim>\<open>queue_mutex\<close>, waits, and then, still holding that mutex,
  locks \<^verbatim>\<open>log_mutex\<close>; meanwhile the worker makes \<open>k\<close> of the steps that are open to it. A
  worker that holds \<^verbatim>\<open>log_mutex\<close> then (it stands at the call of \<^verbatim>\<open>logMessage\<close> in
  \<^verbatim>\<open>rotateLogFile\<close>) has to leave \<^verbatim>\<open>writeLogMessage\<close> first. It does when the record is
  filtered out. Otherwise it waits for \<^verbatim>\<open>queue_mutex\<close>, which the caller holds, and the
  caller waits for \<^verbatim>\<open>log_mutex\<close>, which the worker holds: \<^verbatim>\<open>flush\<close> does not return
  (\<open>None\<close>).
\<close>

fun flush :: "(nat \<times> nat) list \<times> nat \<Rightarrow> state \<Rightarrow> state option" where
  "flush (env, k) s =
     (case flush_wait 0 env (lock_queue s) of
        (t, (i1, w1)) \<Rightarrow>
          (case locked_steps k (i1, w1\<lparr>trace := trace w1 @ [EvWaitFor t]\<rparr>) of
             (i2, w2) \<Rightarrow>
               if logging_thread i2 = Some WRotated \<and>
                  \<not> level_value INFO < level_value (current_log_level i2)
               then None
               else (case (if logging_thread i2 = Some WRotated then worker_step (i2, w2)
                           else (i2, w2)) of
                       (i3, w3) \<Rightarrow>
                         Some (i3, if log_file i3 then w3\<lparr>trace := trace w3 @ [EvFlush]\<rparr>
                                   else w3))))"

subsection \<open>Shutdown\<close>

text \<open>\<^verbatim>\<open>should_stop = true; queue_condition.notify_all();\<close> No mutex is held.\<close>

fun request_stop :: "state \<Rightarrow> state" where
  "request_stop (i, w) = (i\<lparr>should_stop := True\<rparr>, w\<lparr>trace := trace w @ [EvNotifyAll]\<rparr>)"

text \<open>
  \<^verbatim>\<open>logging_thread.join()\<close>: the caller waits, with no bound, until the worker has
  returned. \<open>join n\<close> lets the worker make at most \<open>n\<close> steps and is \<open>None\<close> when it has
  not returned by then.
\<close>

fun join :: "nat \<Rightarrow> state \<Rightarrow> state option" where
  "join 0 (i, w) = (if logging_thread i = Some WExit then Some (i, w) else None)"
| "join (Suc n) (i, w) =
     (if logging_thread i = Some WExit then Some (i, w) else join n (worker_step (i, w)))"

text \<open>
  The body of \<^verbatim>\<open>if (logging_thread.joinable()) { ... }\<close> in \<^verbatim>\<open>shutdown\<close>. Between the
  return of \<^verbatim>\<open>flush\<close> and the store of the stop flag the worker makes \<open>k'\<close> steps.
\<close>

fun stop_worker :: "(nat \<times> nat) list \<times> nat \<Rightarrow> nat \<Rightarrow> nat \<Rightarrow> state \<Rightarrow> state option" where
  "stop_worker env k' fuel s =
     (case flush env s of
        None \<Rightarrow> None
      | Some s1 \<Rightarrow>
          (case join fuel (request_stop (worker_steps k' s1)) of
             None \<Rightarrow> None
           | Some (i', w') \<Rightarrow>
               Some (i'\<lparr>logging_thread := None\<rparr>, w'\<lparr>trace := trace w' @ [EvJoin]\<rparr>)))"

text \<open>The last statement of \<^verbatim>\<open>shutdown\<close>: \<^verbatim>\<open>if (log_file.is_open()) { flush; close; }\<close>.\<close>

fun close_log_file :: "state \<Rightarrow> state" where
  "close_log_file (i, w) =
     (if log_file i
      then (i\<lparr>log_file := False\<rparr>, w\<lparr>trace := trace w @ [EvFlush, EvClose]\<rparr>)
      else (i, w))"

fun shutdown :: "(nat \<times> nat) list \<times> nat \<Rightarrow> nat \<Rightarrow> nat \<Rightarrow> state \<Rightarrow> state option" where
  "shutdown env k' fuel (i, w) =
     (if logging_thread i \<noteq> None
      then map_option close_log_file (stop_worker env k' fuel (i, w))
      else Some (close_log_file (i, w)))"

subsection \<open>Initialisation\<close>

text \<open>
  Assigning a new \<^verbatim>\<open>std::thread\<close> to a joinable one calls \<^verbatim>\<open>std::terminate\<close>: that is
  the one way \<^verbatim>\<open>initialize\<close> fails.
\<close>

datatype failure = Terminate

fun initialize ::
  "LogLevel \<Rightarrow> LogTarget \<Rightarrow> string \<Rightarrow> nat \<Rightarrow> nat \<Rightarrow> state \<Rightarrow> failure + state" where
  "initialize log_level target file_path max_file_size_mb max_backup_count (i, w) =
     (let i1 = i\<lparr>current_log_level := log_level, log_target := target,
                 log_file_path := file_path,
                 max_file_size_bytes := (max_file_size_mb * 1024 * 1024) mod 2 ^ 64,
                 max_backup_files := max_backup_count mod 2 ^ 64\<rparr>;
          s2 = (if target = FILE \<or> target = BOTH then openLogFile (i1, w) else (i1, w))
      in if logging_thread (fst s2) \<noteq> None then Inl Terminate
         else
           (let s3 = ((fst s2)\<lparr>should_stop := False, logging_thread := Some WTop\<rparr>,
                      (snd s2)\<lparr>trace := trace (snd s2) @ [EvThreadStart]\<rparr>);
                s4 = logMessage INFO ''LOGGER'' ''Logging system initialized'' s3;
                s5 = logMessage INFO ''LOGGER''
                       (''Log level: '' @ logLevelToString log_level) s4;
                s6 = logMessage INFO ''LOGGER''
                       (''Log target: '' @ logTargetToString target) s5
            in Inr (if log_target (fst s6) \<noteq> CONSOLE
                    then logMessage INFO ''LOGGER'' (''Log file: '' @ file_path) s6
                    else s6)))"

subsection \<open>The public class\<close>

text \<open>\<^verbatim>\<open>Logger\<close> owns \<^verbatim>\<open>std::unique_ptr<Impl> pImpl\<close>, null until the engine is created.\<close>

type_synonym Logger = "Impl option \<times> world"

text \<open>The default arguments of \<^verbatim>\<open>Logger::initialize\<close>.\<close>

definition default_log_level :: LogLevel where
  "default_log_level = INFO"

definition default_log_target :: LogTarget where
  "default_log_target = BOTH"

definition default_log_file_path :: string where
  "default_log_file_path = ''inference_service.log''"

definition default_max_file_size_mb :: nat where
  "default_max_file_size_mb = 10"

definition default_max_backup_files :: nat where
  "default_max_backup_files = 5"

fun Logger_initialize ::
  "LogLevel \<Rightarrow> LogTarget \<Rightarrow> string \<Rightarrow> nat \<Rightarrow> nat \<Rightarrow> Logger \<Rightarrow> failure + Logger" where
  "Logger_initialize log_level log_target' log_file_path' max_file_size_mb max_backup_files'
       (pImpl, w) =
     (case initialize log_level log_target' log_file_path' max_file_size_mb max_backup_files'
             (case pImpl of None \<Rightarrow> Impl_default | Some i \<Rightarrow> i, w) of
        Inl e \<Rightarrow> Inl e
      | Inr (i', w') \<Rightarrow> Inr (Some i', w'))"

fun Logger_log :: "LogLevel \<Rightarrow> string \<Rightarrow> string \<Rightarrow> Logger \<Rightarrow> failure + Logger" where
  "Logger_log level modname message (None, w) =
     (case initialize INFO CONSOLE ''inference_service.log'' 10 5 (Impl_default, w) of
        Inl e \<Rightarrow> Inl e
      | Inr s \<Rightarrow>
          (case logMessage level modname message s of (i', w') \<Rightarrow> Inr (Some i', w')))"
| "Logger_log level modname message (Some i, w) =
     (case logMessage level modname message (i, w) of (i', w') \<Rightarrow> Inr (Some i', w'))"

fun setLogLevel :: "LogLevel \<Rightarrow> Logger \<Rightarrow> Logger" where
  "setLogLevel level (None, w) = (None, w)"
| "setLogLevel level (Some i, w) = (Some (i\<lparr>current_log_level := level\<rparr>), w)"

fun getLogLevel :: "Logger \<Rightarrow> LogLevel" where
  "getLogLevel (None, w) = INFO"
| "getLogLevel (Some i, w) = current_log_level i"

fun Logger_flush :: "(nat \<times> nat) list \<times> nat \<Rightarrow> Logger \<Rightarrow> Logger option" where
  "Logger_flush env (None, w) = Some (None, w)"
| "Logger_flush env (Some i, w) = map_option (\<lambda>(i', w'). (Some i', w')) (flush env (i, w))"

fun Logger_shutdown ::
  "(nat \<times> nat) list \<times> nat \<Rightarrow> nat \<Rightarrow> nat \<Rightarrow> Logger \<Rightarrow> Logger option" where
  "Logger_shutdown env k' fuel (None, w) = Some (None, w)"
| "Logger_shutdown env k' fuel (Some i, w) =
     map_option (\<lambda>(i', w'). (Some i', w')) (shutdown env k' fuel (i, w))"

subsection \<open>Executions\<close>

text \<open>
  An execution from a state is a list of atomic actions: a step of the worker; a call of
  \<^verbatim>\<open>logMessage\<close> by some thread, which locks \<^verbatim>\<open>queue_mutex\<close> when the record passes the
  filter; an assignment to \<^verbatim>\<open>current_log_level\<close>; the stop request of \<^verbatim>\<open>shutdown\<close>; or a
  call by another thread that leaves an event in the trace and nothing else.
\<close>

datatype action =
  Work | Log LogLevel string string | SetLevel LogLevel | Stop | Note event

fun act :: "action \<Rightarrow> state \<Rightarrow> state" where
  "act Work s = worker_step s"
| "act (Log level modname message) (i, w) =
     (if level_value level < level_value (current_log_level i) then (i, w)
      else logMessage level modname message (lock_queue (i, w)))"
| "act (SetLevel level) (i, w) = (i\<lparr>current_log_level := level\<rparr>, w)"
| "act Stop s = request_stop s"
| "act (Note e) (i, w) = (i, w\<lparr>trace := trace w @ [e]\<rparr>)"

fun exec :: "action list \<Rightarrow> state \<Rightarrow> state" where
  "exec [] s = s"
| "exec (a # as) s = exec as (act a s)"

text \<open>The records that the worker passes to \<^verbatim>\<open>writeLogMessage\<close> along an execution.\<close>

fun written_by :: "action \<Rightarrow> state \<Rightarrow> string list" where
  "written_by Work (i, w) =
     (case logging_thread i of Some (WWrite message) \<Rightarrow> [message] | _ \<Rightarrow> [])"
| "written_by a s = []"

fun writes :: "action list \<Rightarrow> state \<Rightarrow> string list" where
  "writes [] s = []"
| "writes (a # as) s = written_by a s @ writes as (act a s)"

text \<open>The records that are in the queue or in the worker's hands.\<close>

fun pending :: "state \<Rightarrow> string list" where
  "pending (i, w) =
     (case logging_thread i of Some (WWrite message) \<Rightarrow> [message] | _ \<Rightarrow> []) @ log_queue i"

subsection \<open>Concrete inputs\<close>

text \<open>A clock reading: 2 January 2024, 03:04:05.006 local time, read by thread \<open>1\<close>.\<close>

definition st0 :: stamp where
  "st0 = \<lparr>tm_year = 124, tm_mon = 0, tm_mday = 2, tm_hour = 3, tm_min = 4, tm_sec = 5,
          epoch_ms = 1704164645006, thread_id = ''1''\<rparr>"

text \<open>An empty world in which every path opens and the filesystem has no fault.\<close>

definition w0 :: world where
  "w0 = \<lparr>cout = [], cerr = [], files = Map.empty, on_open = (\<lambda>p. Opens),
         fs_fault = (\<lambda>n. False), clock = (\<lambda>n. st0), clock_reads = 0, trace = []\<rparr>"

text \<open>
  A running engine at level INFO that writes to both targets, its worker at the test of
  the predicate of \<^verbatim>\<open>wait\<close> with an empty queue, and a world that holds its empty log
  file.
\<close>

definition run0 :: Impl where
  "run0 = \<lparr>current_log_level = INFO, log_target = BOTH, log_file_path = ''app.log'',
           max_file_size_bytes = 10485760, max_backup_files = 5, log_file = True,
           log_queue = [], logging_thread = Some WWait, should_stop = False\<rparr>"

definition w1 :: world where
  "w1 = w0\<lparr>files := [''app.log'' \<mapsto> []]\<rparr>"

text \<open>The decimal digits, for the shape of a formatted line.\<close>

definition is_digit :: "char \<Rightarrow> bool" where
  "is_digit c = (c \<in> set ''0123456789'')"

text \<open>
  Two engines that write to a file only, with \<^verbatim>\<open>max_backup_files\<close> 5 and 2, and two
  worlds: one with the active file and four backups, one with the active file and one
  backup.
\<close>

definition five0 :: Impl where
  "five0 = run0\<lparr>log_target := FILE\<rparr>"

definition two0 :: Impl where
  "two0 = run0\<lparr>log_target := FILE, max_backup_files := 2\<rparr>"

definition wfive :: world where
  "wfive = w0\<lparr>files := [''app.log'' \<mapsto> ''e'', ''app.log.1'' \<mapsto> ''d'',
       ''app.log.2'' \<mapsto> ''c'', ''app.log.3'' \<mapsto> ''b'', ''app.log.4'' \<mapsto> ''a'']\<rparr>"

definition wtwo :: world where
  "wtwo = w0\<lparr>files := [''app.log'' \<mapsto> ''new'', ''app.log.1'' \<mapsto> ''old'']\<rparr>"

text \<open>Reading a decimal number back, to tell the backup paths apart.\<close>

definition digit_value :: "char \<Rightarrow> nat" where
  "digit_value c = of_char c - 48"

fun of_digits :: "string \<Rightarrow> nat" where
  "of_digits s = foldl (\<lambda>a c. 10 * a + digit_value c) 0 s"

text \<open>The active file, when it exists, is smaller than the ceiling.\<close>

fun under_ceiling :: "state \<Rightarrow> bool" where
  "under_ceiling (i, w) =
     (case files w (log_file_path i) of
        None \<Rightarrow> True
      | Some c \<Rightarrow> length c < max_file_size_bytes i)"

text \<open>
  An engine that writes to the file \<^verbatim>\<open>logs/app.log\<close> only, with a ceiling of one megabyte
  (\<^verbatim>\<open>max_file_size_mb = 1\<close>); a world in which that file is five bytes short of the
  ceiling; and the same world with a filesystem that answers the first \<^verbatim>\<open>file_size\<close>
  after a write and refuses every later call.
\<close>

definition log0 :: Impl where
  "log0 = \<lparr>current_log_level = INFO, log_target = FILE, log_file_path = ''logs/app.log'',
           max_file_size_bytes = 1048576, max_backup_files = 5, log_file = True,
           log_queue = [], logging_thread = Some WWait, should_stop = False\<rparr>"

definition wfull :: world where
  "wfull = w0\<lparr>files := [''logs/app.log'' \<mapsto> replicate 1048571 CHR ''x'']\<rparr>"

definition wrefuse :: world where
  "wrefuse = wfull\<lparr>fs_fault := (\<lambda>n. 3 < n)\<rparr>"

text \<open>The bytes that a list of records adds to the log file: each record and a line break.\<close>

definition file_lines :: "string list \<Rightarrow> string" where
  "file_lines ms = concat (map (\<lambda>m. m @ [CHR 0x0A]) ms)"

text \<open>
  A measure of what a worker has left to do once the stop flag is set, for runs in which
  the queue receives no rotation notice.
\<close>

fun drain_rank :: "state \<Rightarrow> nat" where
  "drain_rank (i, w) =
     (case logging_thread i of
        None \<Rightarrow> 0
      | Some WExit \<Rightarrow> 0
      | Some WTop \<Rightarrow> (if log_queue i = [] then 1 else 3 * length (log_queue i) + 7)
      | Some WWait \<Rightarrow> 3 * length (log_queue i) + 6
      | Some WBlocking \<Rightarrow> 0
      | Some (WBlocked n) \<Rightarrow> 3 * length (log_queue i) + 7
      | Some WInner \<Rightarrow> 3 * length (log_queue i) + 5
      | Some WRelock \<Rightarrow> 3 * length (log_queue i) + 5
      | Some (WWrite m) \<Rightarrow> 3 * length (log_queue i) + 7
      | Some WRotated \<Rightarrow> 3 * length (log_queue i) + 6)"

text \<open>
  The worker can go on by itself: it exists, it is not about to fall asleep, and if it is
  asleep a notification has been sent since.
\<close>

fun runnable :: "state \<Rightarrow> bool" where
  "runnable (i, w) =
     (case logging_thread i of
        None \<Rightarrow> False
      | Some WBlocking \<Rightarrow> False
      | Some (WBlocked n) \<Rightarrow> n < notified w
      | _ \<Rightarrow> True)"

text \<open>
  The worker is alive and a caller can lock \<^verbatim>\<open>queue_mutex\<close> now: the thread is joinable
  and has not returned, it does not hold the mutex, and if it is asleep it fell asleep in
  the past.
\<close>

fun alive :: "state \<Rightarrow> bool" where
  "alive (i, w) =
     (case logging_thread i of
        None \<Rightarrow> False
      | Some WExit \<Rightarrow> False
      | Some WBlocking \<Rightarrow> False
      | Some WInner \<Rightarrow> False
      | Some (WBlocked n) \<Rightarrow> n \<le> notified w
      | _ \<Rightarrow> True)"

text \<open>
  No rotation notice can reach the queue: the engine writes no file and the worker is not
  at the call that pushes the notice, or the threshold is above INFO.
\<close>

fun no_notice :: "state \<Rightarrow> bool" where
  "no_notice (i, w) =
     (((log_target i = CONSOLE \<or> \<not> log_file i) \<and> logging_thread i \<noteq> Some WRotated) \<or>
      level_value INFO < level_value (current_log_level i))"

text \<open>
  An engine that writes to the console and to \<^verbatim>\<open>logs/app.log\<close>, with two records queued,
  and a world that holds the file with one line. A worker at the test of its outer loop
  with the stop flag set. An engine that writes to the console only, with one record
  queued. An execution in which the stop request comes after the worker has popped the
  first of two records.
\<close>

definition both0 :: Impl where
  "both0 = log0\<lparr>log_target := BOTH, log_queue := [''a'', ''b'']\<rparr>"

definition wlogs :: world where
  "wlogs = w0\<lparr>files := [''logs/app.log'' \<mapsto> ''old'' @ [CHR 0x0A]]\<rparr>"

definition top0 :: Impl where
  "top0 = run0\<lparr>logging_thread := Some WTop, should_stop := True\<rparr>"

definition drain0 :: Impl where
  "drain0 = run0\<lparr>log_target := CONSOLE, log_queue := [''a'']\<rparr>"

definition sched0 :: "action list" where
  "sched0 = [Work, Work, Stop, Work, Work, Work, Work, Work]"






section \<open>Properties\<close>

subsection \<open>Auxiliary facts\<close>

lemma replicate_num: "replicate (numeral k) x = x # replicate (pred_numeral k) x"
  by (simp add: numeral_eq_Suc)

lemmas fmt_eval =
  formatLogMessage_def put_time_def setw_fill_def to_string.simps digit_char_def
  replicate_num

lemma fs_remove_frame [simp]:
  "cout (fs_remove p w) = cout w" "cerr (fs_remove p w) = cerr w"
  "on_open (fs_remove p w) = on_open w" "clock (fs_remove p w) = clock w"
  "clock_reads (fs_remove p w) = clock_reads w" "fs_fault (fs_remove p w) = fs_fault w"
  by (simp_all add: fs_remove_def)

lemma fs_rename_frame [simp]:
  "cout (fs_rename p q w) = cout w" "cerr (fs_rename p q w) = cerr w"
  "on_open (fs_rename p q w) = on_open w" "clock (fs_rename p q w) = clock w"
  "clock_reads (fs_rename p q w) = clock_reads w" "fs_fault (fs_rename p q w) = fs_fault w"
  by (simp_all add: fs_rename_def)

lemma rotate_backups_frame [simp]:
  "cout (snd (rotate_backups k oldest p w)) = cout w"
  "cerr (snd (rotate_backups k oldest p w)) = cerr w"
  "on_open (snd (rotate_backups k oldest p w)) = on_open w"
  "clock (snd (rotate_backups k oldest p w)) = clock w"
  "clock_reads (snd (rotate_backups k oldest p w)) = clock_reads w"
  "fs_fault (snd (rotate_backups k oldest p w)) = fs_fault w"
  by (induction k arbitrary: w; simp add: Let_def)+

text \<open>The loop touches backup paths only, never the active file.\<close>

lemma rotate_backups_active [simp]:
  "files (snd (rotate_backups k oldest p w)) p = files w p"
  by (induction k arbitrary: w) (simp_all add: Let_def fs_remove_def fs_rename_def)

lemma rotate_files_Impl:
  "fst (rotate_files (i, w)) = i\<lparr>log_file := (on_open w (log_file_path i) = Opens)\<rparr>"
  by (simp add: Let_def split: open_outcome.splits)

lemma rotate_files_cout [simp]: "cout (snd (rotate_files (i, w))) = cout w"
  by (simp add: Let_def split: open_outcome.splits)

lemma rotate_files_level:
  "rotate_files (i\<lparr>current_log_level := L\<rparr>, w) =
     ((fst (rotate_files (i, w)))\<lparr>current_log_level := L\<rparr>, snd (rotate_files (i, w)))"
  by (simp add: Let_def split: open_outcome.splits)

declare rotate_files.simps [simp del]

lemma rotateLogFile_Impl:
  "fst (rotateLogFile (i, w)) =
     i\<lparr>log_file := (on_open w (log_file_path i) = Opens),
       log_queue := log_queue i @
         (if level_value INFO < level_value (current_log_level i) then []
          else [formatLogMessage (clock (snd (rotate_files (i, w)))
                  (clock_reads (snd (rotate_files (i, w))))) INFO ''LOGGER''
                  ''Log file rotated''])\<rparr>"
proof -
  obtain i' w' where r: "rotate_files (i, w) = (i', w')" by (cases "rotate_files (i, w)")
  have "i' = i\<lparr>log_file := (on_open w (log_file_path i) = Opens)\<rparr>"
    using rotate_files_Impl [of i w] r by simp
  then show ?thesis by (simp add: r)
qed

declare rotateLogFile.simps [simp del]

lemma logMessage_files [simp]:
  "files (snd (logMessage level modname message s)) = files (snd s)"
  by (cases s) simp

lemma rotate_backups_numeral:
  "rotate_backups (numeral k) oldest p w =
     (if files w (p @ ''.'' @ to_string (numeral k)) \<noteq> None
      then (if fs_throws w then (False, w)
            else rotate_backups (pred_numeral k) oldest p
                   (if numeral k = oldest then fs_remove (p @ ''.'' @ to_string (numeral k)) w
                    else fs_rename (p @ ''.'' @ to_string (numeral k))
                           (p @ ''.'' @ to_string (numeral k + 1)) w))
      else rotate_backups (pred_numeral k) oldest p w)"
  by (simp add: numeral_eq_Suc Let_def)

lemmas rotate_eval =
  rotateLogFile.simps rotate_files.simps rotate_backups_numeral loop_start_def
  backups_top_def Let_def fs_remove_def fs_rename_def fs_throws_def to_string.simps
  digit_char_def


subsection \<open>The threshold\<close>

lemma needsRotation_level_indep [simp]:
  "needsRotation (i\<lparr>current_log_level := L\<rparr>, w) = needsRotation (i, w)"
  by (simp split: option.splits)

declare needsRotation.simps [simp del]

lemma write_targets_level:
  "write_targets message (i\<lparr>current_log_level := L\<rparr>, w) =
     (fst (write_targets message (i, w)),
      (fst (snd (write_targets message (i, w))))\<lparr>current_log_level := L\<rparr>,
      snd (snd (write_targets message (i, w))))"
  by (simp add: Let_def rotate_files_level)

declare write_targets.simps [simp del]

text \<open>What a step of the worker puts on the console and into the files does not depend
  on the threshold.\<close>

lemma worker_step_level_indep:
  "cout (snd (worker_step (i\<lparr>current_log_level := L\<rparr>, w))) = cout (snd (worker_step (i, w)))"
  "files (snd (worker_step (i\<lparr>current_log_level := L\<rparr>, w))) =
     files (snd (worker_step (i, w)))"
  by (auto simp: case_prod_beta write_targets_level
      split: option.splits worker_pc.splits list.splits)

text \<open>
  Claim C9, as the code has it. Once the engine exists (\<^verbatim>\<open>pImpl\<close> is not null),
  \<^verbatim>\<open>setLogLevel(L)\<close> followed by \<^verbatim>\<open>getLogLevel()\<close> returns \<open>L\<close>, whatever the queue
  holds and wherever the worker stands. The update changes the threshold and nothing else:
  the queue is the same, the worker's next step writes the same console lines and file
  contents as without the update, and a later \<^verbatim>\<open>log\<close> call is filtered by \<open>L\<close>.
\<close>

theorem setLogLevel_getLogLevel:
  "getLogLevel (setLogLevel L (Some i, w)) = L \<and>
   setLogLevel L (Some i, w) = (Some (i\<lparr>current_log_level := L\<rparr>), w) \<and>
   log_queue (i\<lparr>current_log_level := L\<rparr>) = log_queue i \<and>
   cout (snd (worker_step (i\<lparr>current_log_level := L\<rparr>, w))) =
     cout (snd (worker_step (i, w))) \<and>
   files (snd (worker_step (i\<lparr>current_log_level := L\<rparr>, w))) =
     files (snd (worker_step (i, w))) \<and>
   Logger_log level modname message (setLogLevel L (Some i, w)) =
     Inr (if level_value level < level_value L
          then (Some (i\<lparr>current_log_level := L\<rparr>), w)
          else (Some (i\<lparr>current_log_level := L,
                        log_queue := log_queue i @
                          [formatLogMessage (clock w (clock_reads w)) level modname
                             message]\<rparr>),
                w\<lparr>clock_reads := Suc (clock_reads w),
                  trace := trace w @ [EvNotifyOne]\<rparr>))"
  using worker_step_level_indep [where i = i and L = L and w = w] by simp

theorem setLogLevel_getLogLevel_witness:
  "getLogLevel (setLogLevel DEBUG (Some (run0\<lparr>log_queue := [''queued'']\<rparr>), w1)) = DEBUG \<and>
   (case setLogLevel DEBUG (Some (run0\<lparr>log_queue := [''queued'']\<rparr>), w1) of
      (Some i', w') \<Rightarrow> log_queue i' = [''queued'']
    | (None, w') \<Rightarrow> False)"
  using setLogLevel_getLogLevel [where L = DEBUG and w = w1
      and i = "run0\<lparr>log_queue := [''queued'']\<rparr>"]
  by simp

text \<open>
  The claim as stated (for every level, with no condition on the engine) fails before the
  engine exists: on a fresh \<^verbatim>\<open>Logger\<close>, \<^verbatim>\<open>setLogLevel(DEBUG)\<close> then \<^verbatim>\<open>getLogLevel()\<close>
  returns INFO.
\<close>

theorem setLogLevel_before_engine_counterexample:
  "getLogLevel (setLogLevel DEBUG (None, w0)) \<noteq> DEBUG"
  by simp

subsection \<open>Before the engine exists\<close>

text \<open>
  Claim C10. While \<^verbatim>\<open>pImpl\<close> is null, \<^verbatim>\<open>getLogLevel\<close> answers INFO (it is a read: it
  returns a level and no state), \<^verbatim>\<open>setLogLevel\<close> leaves the logger as it is, so that
  \<^verbatim>\<open>getLogLevel\<close> still answers INFO afterwards, and the first \<^verbatim>\<open>log\<close> call creates the
  engine at level INFO with the CONSOLE target, no log file open and the worker started;
  an explicit \<^verbatim>\<open>initialize\<close> with its default arguments chooses BOTH.
\<close>

theorem uninitialised_logger:
  "getLogLevel (None, w) = INFO \<and>
   setLogLevel L (None, w) = (None, w) \<and>
   getLogLevel (setLogLevel L (None, w)) = INFO \<and>
   (\<exists>i' w'. Logger_log level modname message (None, w) = Inr (Some i', w') \<and>
      current_log_level i' = INFO \<and> log_target i' = CONSOLE \<and> \<not> log_file i' \<and>
      logging_thread i' = Some WTop) \<and>
   (\<exists>i' w'. Logger_initialize default_log_level default_log_target default_log_file_path
        default_max_file_size_mb default_max_backup_files (None, w) = Inr (Some i', w') \<and>
      current_log_level i' = INFO \<and> log_target i' = BOTH)"
  by (simp add: Impl_default_def Let_def default_log_target_def default_log_level_def
      split: open_outcome.splits)

theorem uninitialised_logger_witness:
  "getLogLevel (setLogLevel DEBUG (None, w0)) = INFO \<and>
   (case Logger_log DEBUG ''APP'' ''x'' (None, w0) of
      Inr (Some i', w') \<Rightarrow>
        current_log_level i' = INFO \<and> log_target i' = CONSOLE \<and> length (log_queue i') = 3
    | _ \<Rightarrow> False)"
  using uninitialised_logger [where w = w0 and L = DEBUG and level = DEBUG
      and modname = "''APP''" and message = "''x''"]
  by (simp add: Impl_default_def Let_def w0_def)

subsection \<open>The formatter\<close>

lemma digit_char_is_digit: "d < 10 \<Longrightarrow> is_digit (digit_char d)"
  unfolding is_digit_def digit_char_def by (rule nth_mem) simp

lemma to_string_small: "n < 10 \<Longrightarrow> to_string n = [digit_char n]"
  by (subst to_string.simps) simp

lemma to_string_large:
  "10 \<le> n \<Longrightarrow> to_string n = to_string (n div 10) @ [digit_char (n mod 10)]"
  by (subst to_string.simps) simp

lemma to_string_digits: "list_all is_digit (to_string n)"
proof (induction n rule: to_string.induct)
  case (1 n)
  show ?case
  proof (cases "n < 10")
    case True
    then show ?thesis by (simp add: to_string_small digit_char_is_digit)
  next
    case False
    then show ?thesis using 1 by (simp add: to_string_large digit_char_is_digit)
  qed
qed

lemma to_string_length_2: "n < 100 \<Longrightarrow> length (to_string n) \<le> 2"
  by (cases "n < 10") (simp_all add: to_string_small to_string_large)

lemma to_string_length_3: "n < 1000 \<Longrightarrow> length (to_string n) \<le> 3"
  by (cases "n < 10") (simp_all add: to_string_small to_string_large to_string_length_2)

lemma to_string_length_4: "1000 \<le> n \<Longrightarrow> n < 10000 \<Longrightarrow> length (to_string n) = 4"
proof -
  assume a: "1000 \<le> n" "n < 10000"
  have 1: "to_string n = to_string (n div 10) @ [digit_char (n mod 10)]"
    using a by (simp add: to_string_large)
  have 2: "to_string (n div 10) = to_string (n div 10 div 10) @ [digit_char (n div 10 mod 10)]"
    using a by (simp add: to_string_large)
  have 3: "to_string (n div 10 div 10) =
      to_string (n div 10 div 10 div 10) @ [digit_char (n div 10 div 10 mod 10)]"
    using a by (simp add: to_string_large)
  have 4: "to_string (n div 10 div 10 div 10) = [digit_char (n div 10 div 10 div 10)]"
    using a by (simp add: to_string_small)
  show ?thesis by (simp add: 1 2 3 4)
qed

lemma setw_fill_length: "length (setw_fill n c s) = max n (length s)"
  by (simp add: setw_fill_def)

lemma is_digit_zero: "is_digit CHR ''0''"
  by (simp add: is_digit_def)

lemma setw_fill_digits:
  "list_all is_digit s \<Longrightarrow> list_all is_digit (setw_fill n CHR ''0'' s)"
  by (auto simp: setw_fill_def list_all_iff is_digit_zero)

lemma logLevelToString_length: "length (logLevelToString level) \<le> 8"
  by (cases level) simp_all

lemma newline_no_digit: "\<not> is_digit (CHR 0x0A)"
  by (simp add: is_digit_def)

lemma digits_no_newline: "list_all is_digit s \<Longrightarrow> CHR 0x0A \<notin> set s"
  using newline_no_digit by (auto simp: list_all_iff)

lemma logLevelToString_no_newline: "CHR 0x0A \<notin> set (logLevelToString level)"
  by (cases level) simp_all

lemma setw_fill_newline:
  "CHR 0x0A \<in> set (setw_fill n CHR ''0'' s) \<longleftrightarrow> CHR 0x0A \<in> set s"
  by (auto simp: setw_fill_def)

lemma to_string_no_newline: "CHR 0x0A \<notin> set (to_string n)"
  by (rule digits_no_newline [OF to_string_digits])

lemma formatLogMessage_newline:
  "CHR 0x0A \<in> set (formatLogMessage st level modname message) \<longleftrightarrow>
   CHR 0x0A \<in> set (thread_id st @ modname @ message)"
  by (simp add: formatLogMessage_def put_time_def setw_fill_newline
      logLevelToString_no_newline to_string_no_newline)

text \<open>
  Claim C7, as the code has it. For a clock reading within the calendar's ranges, the
  line is, in this order: the date \<^verbatim>\<open>YYYY-MM-DD\<close>, a space, the time \<^verbatim>\<open>HH:MM:SS\<close>, a
  dot, three digits of milliseconds, the thread id in brackets, the level name in
  brackets, the module in brackets, a space and the message. The level name is one of the
  six literals and stands flush right in a field of width 8; the module stands flush right
  in a field of width 15 (a longer module is not cut). The line contains a line break
  exactly when the thread id, the module or the message does. Nothing is said here of the
  characters that fill the two fields.
\<close>

theorem formatLogMessage_layout:
  assumes "tm_year st < 8100" "tm_mon st < 12" "tm_mday st \<le> 31"
    "tm_hour st < 24" "tm_min st < 60" "tm_sec st \<le> 60"
  shows "\<exists>Y M D h m s ms pad pad'.
      formatLogMessage st level modname message =
        Y @ ''-'' @ M @ ''-'' @ D @ '' '' @ h @ '':'' @ m @ '':'' @ s @ ''.'' @ ms @
        '' ['' @ thread_id st @ ''] ['' @ pad @ logLevelToString level @
        ''] ['' @ pad' @ modname @ ''] '' @ message \<and>
      length Y = 4 \<and> length M = 2 \<and> length D = 2 \<and> length h = 2 \<and> length m = 2 \<and>
      length s = 2 \<and> length ms = 3 \<and>
      list_all is_digit (Y @ M @ D @ h @ m @ s @ ms) \<and>
      logLevelToString level \<in>
        {''TRACE'', ''DEBUG'', ''INFO'', ''WARN'', ''ERROR'', ''CRITICAL''} \<and>
      length (pad @ logLevelToString level) = 8 \<and>
      length (pad' @ modname) = max 15 (length modname) \<and>
      (CHR 0x0A \<in> set (formatLogMessage st level modname message) \<longleftrightarrow>
       CHR 0x0A \<in> set (thread_id st @ modname @ message))"
proof (intro exI conjI)
  show "formatLogMessage st level modname message =
      to_string (1900 + tm_year st) @ ''-'' @
      setw_fill 2 CHR ''0'' (to_string (tm_mon st + 1)) @ ''-'' @
      setw_fill 2 CHR ''0'' (to_string (tm_mday st)) @ '' '' @
      setw_fill 2 CHR ''0'' (to_string (tm_hour st)) @ '':'' @
      setw_fill 2 CHR ''0'' (to_string (tm_min st)) @ '':'' @
      setw_fill 2 CHR ''0'' (to_string (tm_sec st)) @ ''.'' @
      setw_fill 3 CHR ''0'' (to_string (epoch_ms st mod 1000)) @
      '' ['' @ thread_id st @ ''] ['' @
      replicate (8 - length (logLevelToString level)) CHR ''0'' @ logLevelToString level @
      ''] ['' @ replicate (15 - length modname) CHR ''0'' @ modname @ ''] '' @ message"
    by (simp add: formatLogMessage_def put_time_def setw_fill_def)
  show "length (to_string (1900 + tm_year st)) = 4"
    using assms by (simp add: to_string_length_4)
  show "length (setw_fill 2 CHR ''0'' (to_string (tm_mon st + 1))) = 2"
    using assms to_string_length_2 [of "tm_mon st + 1"] by (simp add: setw_fill_length)
  show "length (setw_fill 2 CHR ''0'' (to_string (tm_mday st))) = 2"
    using assms to_string_length_2 [of "tm_mday st"] by (simp add: setw_fill_length)
  show "length (setw_fill 2 CHR ''0'' (to_string (tm_hour st))) = 2"
    using assms to_string_length_2 [of "tm_hour st"] by (simp add: setw_fill_length)
  show "length (setw_fill 2 CHR ''0'' (to_string (tm_min st))) = 2"
    using assms to_string_length_2 [of "tm_min st"] by (simp add: setw_fill_length)
  show "length (setw_fill 2 CHR ''0'' (to_string (tm_sec st))) = 2"
    using assms to_string_length_2 [of "tm_sec st"] by (simp add: setw_fill_length)
  show "length (setw_fill 3 CHR ''0'' (to_string (epoch_ms st mod 1000))) = 3"
    using to_string_length_3 [of "epoch_ms st mod 1000"] by (simp add: setw_fill_length)
  show "list_all is_digit
     (to_string (1900 + tm_year st) @ setw_fill 2 CHR ''0'' (to_string (tm_mon st + 1)) @
      setw_fill 2 CHR ''0'' (to_string (tm_mday st)) @
      setw_fill 2 CHR ''0'' (to_string (tm_hour st)) @
      setw_fill 2 CHR ''0'' (to_string (tm_min st)) @
      setw_fill 2 CHR ''0'' (to_string (tm_sec st)) @
      setw_fill 3 CHR ''0'' (to_string (epoch_ms st mod 1000)))"
    by (simp add: to_string_digits setw_fill_digits)
  show "logLevelToString level \<in>
      {''TRACE'', ''DEBUG'', ''INFO'', ''WARN'', ''ERROR'', ''CRITICAL''}"
    by (cases level) simp_all
  show "length (replicate (8 - length (logLevelToString level)) CHR ''0'' @
      logLevelToString level) = 8"
    using logLevelToString_length [of level] by simp
  show "length (replicate (15 - length modname) CHR ''0'' @ modname) =
      max 15 (length modname)"
    by simp
  show "CHR 0x0A \<in> set (formatLogMessage st level modname message) \<longleftrightarrow>
      CHR 0x0A \<in> set (thread_id st @ modname @ message)"
    by (rule formatLogMessage_newline)
qed

theorem formatLogMessage_layout_witness:
  "tm_year st0 < 8100 \<and> tm_mon st0 < 12 \<and> tm_mday st0 \<le> 31 \<and> tm_hour st0 < 24 \<and>
   tm_min st0 < 60 \<and> tm_sec st0 \<le> 60 \<and>
   (\<exists>pad pad'. formatLogMessage st0 INFO ''TEST'' ''hello'' =
      ''2024-01-02 03:04:05.006 [1] ['' @ pad @ ''INFO] ['' @ pad' @ ''TEST] hello'' \<and>
      length pad = 4 \<and> length pad' = 11)"
proof -
  have "formatLogMessage st0 INFO ''TEST'' ''hello'' =
      ''2024-01-02 03:04:05.006 [1] ['' @ ''0000'' @ ''INFO] ['' @ ''00000000000'' @
      ''TEST] hello''"
    by (simp add: fmt_eval st0_def)
  then have "\<exists>pad pad'. formatLogMessage st0 INFO ''TEST'' ''hello'' =
      ''2024-01-02 03:04:05.006 [1] ['' @ pad @ ''INFO] ['' @ pad' @ ''TEST] hello'' \<and>
      length pad = 4 \<and> length pad' = 11"
    by (intro exI [of _ "''0000''"] exI [of _ "''00000000000''"]) simp
  then show ?thesis
    using formatLogMessage_layout [of st0 INFO "''TEST''" "''hello''"]
    by (simp add: st0_def)
qed

text \<open>
  The claim as stated has the level and the module at the left of their fields, followed
  by spaces. The code puts them at the right, after the fill characters.
\<close>

theorem formatLogMessage_padding_counterexample:
  "formatLogMessage st0 INFO ''TEST'' ''hello'' =
     ''2024-01-02 03:04:05.006 [1] [0000INFO] [00000000000TEST] hello'' \<and>
   formatLogMessage st0 INFO ''TEST'' ''hello'' \<noteq>
     ''2024-01-02 03:04:05.006 [1] [INFO    ] [TEST           ] hello''"
  by (simp add: fmt_eval st0_def)

subsection \<open>Initialisation\<close>

text \<open>
  Claim C8, as the code has it. On an engine whose thread is not joinable and whose file
  is closed (a fresh one, or one that was shut down), \<^verbatim>\<open>initialize\<close> returns normally; it sets the five
  configuration fields (the ceiling is the megabytes times \<open>1024 * 1024\<close>, in
  \<^verbatim>\<open>size_t\<close>); when the target is FILE or BOTH and the path opens, it creates the parent
  directory and opens the file, keeping its content; it starts the worker with the stop
  flag cleared; and it passes its bootstrap records to \<^verbatim>\<open>logMessage\<close> at level INFO. They
  are queued when the configured level is INFO or lower, and they are four: the banner,
  the level, the target and the file path, the last one only when the target is not
  CONSOLE. When the configured level is above INFO none is queued.
\<close>

theorem initialize_effect:
  assumes "logging_thread i = None" "\<not> log_file i"
  shows "\<exists>i' w'.
     initialize log_level target file_path mb n (i, w) = Inr (i', w') \<and>
     current_log_level i' = log_level \<and> log_target i' = target \<and>
     log_file_path i' = file_path \<and>
     max_file_size_bytes i' = (mb * 1024 * 1024) mod 2 ^ 64 \<and>
     max_backup_files i' = n mod 2 ^ 64 \<and>
     log_file i' = (target \<noteq> CONSOLE \<and> on_open w file_path = Opens) \<and>
     (if target \<noteq> CONSOLE \<and> on_open w file_path = Opens
      then files w' = (files w)(file_path \<mapsto>
             (case files w file_path of None \<Rightarrow> [] | Some c \<Rightarrow> c)) \<and>
           trace w' = trace w @
             [EvCreateDirectories (parent_path file_path), EvOpen file_path, EvThreadStart] @
             replicate (length (log_queue i') - length (log_queue i)) EvNotifyOne
      else files w' = files w) \<and>
     logging_thread i' = Some WTop \<and> \<not> should_stop i' \<and>
     log_queue i' = log_queue i @
       (if level_value log_level \<le> level_value INFO
        then [formatLogMessage (clock w (clock_reads w)) INFO ''LOGGER''
                ''Logging system initialized'',
              formatLogMessage (clock w (Suc (clock_reads w))) INFO ''LOGGER''
                (''Log level: '' @ logLevelToString log_level),
              formatLogMessage (clock w (Suc (Suc (clock_reads w)))) INFO ''LOGGER''
                (''Log target: '' @ logTargetToString target)] @
             (if target \<noteq> CONSOLE
              then [formatLogMessage (clock w (Suc (Suc (Suc (clock_reads w))))) INFO ''LOGGER''
                      (''Log file: '' @ file_path)]
              else [])
        else [])"
  using assms
  by (cases target; cases "on_open w file_path"; cases "level_value log_level \<le> 2")
     (simp_all add: Let_def replicate_num)

theorem initialize_effect_witness:
  "logging_thread Impl_default = None \<and> \<not> log_file Impl_default \<and>
   (case initialize DEBUG CONSOLE ''app.log'' 10 5 (Impl_default, w0) of
      Inr (i', w') \<Rightarrow>
        current_log_level i' = DEBUG \<and> log_target i' = CONSOLE \<and>
        max_file_size_bytes i' = 10485760 \<and> logging_thread i' = Some WTop \<and>
        \<not> log_file i' \<and>
        map (drop 57) (log_queue i') =
          [''Logging system initialized'', ''Log level: DEBUG'', ''Log target: CONSOLE'']
    | Inl e \<Rightarrow> False)"
  using initialize_effect [where i = Impl_default and w = w0 and log_level = DEBUG
      and target = CONSOLE and file_path = "''app.log''" and mb = 10 and n = 5]
  by (simp add: Impl_default_def w0_def st0_def fmt_eval Let_def)

text \<open>
  The claim as stated counts exactly three records, for every configuration. With level
  INFO and target BOTH the queue receives four; with level WARN it receives none.
\<close>

theorem initialize_records_counterexample:
  "(case initialize INFO BOTH ''app.log'' 10 5 (Impl_default, w0) of
      Inr (i', w') \<Rightarrow>
        map (drop 57) (log_queue i') =
          [''Logging system initialized'', ''Log level: INFO'', ''Log target: BOTH'',
           ''Log file: app.log'']
    | Inl e \<Rightarrow> False) \<and>
   (case initialize WARN BOTH ''app.log'' 10 5 (Impl_default, w0) of
      Inr (i', w') \<Rightarrow> log_queue i' = []
    | Inl e \<Rightarrow> False)"
  by (simp add: Impl_default_def w0_def st0_def fmt_eval Let_def)

subsection \<open>The size ceiling\<close>

lemma rotate_backups_ok:
  "\<forall>n. \<not> fs_fault w n \<Longrightarrow> fst (rotate_backups k oldest p w)"
  by (induction k arbitrary: w) (simp_all add: Let_def fs_throws_def)

lemma rotate_files_files:
  assumes "files w (log_file_path i) = Some c" "\<forall>n. \<not> fs_fault w n"
  shows "files (snd (rotate_files (i, w))) (log_file_path i @ ''.1'') = Some c"
    and "files (snd (rotate_files (i, w))) (log_file_path i) =
           (if on_open w (log_file_path i) = Opens then Some [] else None)"
proof -
  let ?p = "log_file_path i"
  let ?w1 = "w\<lparr>trace := trace w @ [EvClose]\<rparr>"
  let ?r = "rotate_backups (loop_start (max_backup_files i)) (backups_top (max_backup_files i))
              ?p ?w1"
  have ok: "fst ?r" using assms(2) by (simp add: rotate_backups_ok)
  have f: "files (snd ?r) ?p = Some c" using assms(1) by simp
  have nt: "\<not> fs_throws (snd ?r)" using assms(2) by (simp add: fs_throws_def)
  have eq: "rotate_files (i, w) =
      openLogFile (i\<lparr>log_file := False\<rparr>, fs_rename ?p (?p @ ''.1'') (snd ?r))"
    using ok f nt by (simp add: rotate_files.simps Let_def del: openLogFile.simps)
  show "files (snd (rotate_files (i, w))) (?p @ ''.1'') = Some c"
    unfolding eq using f by (simp add: Let_def fs_rename_def split: open_outcome.splits)
  show "files (snd (rotate_files (i, w))) ?p =
      (if on_open w ?p = Opens then Some [] else None)"
    unfolding eq by (simp add: Let_def fs_rename_def split: open_outcome.splits)
qed

text \<open>A rotation that reports its failure has left the active file where it was.\<close>

lemma rotate_files_failed:
  assumes "files w (log_file_path i) = Some c"
    and "RotationFailed \<in> set (drop (length (cerr w)) (cerr (snd (rotate_files (i, w)))))"
  shows "files (snd (rotate_files (i, w))) (log_file_path i) = Some c"
proof -
  let ?p = "log_file_path i"
  let ?w1 = "w\<lparr>trace := trace w @ [EvClose]\<rparr>"
  let ?r = "rotate_backups (loop_start (max_backup_files i)) (backups_top (max_backup_files i))
              ?p ?w1"
  have f: "files (snd ?r) ?p = Some c" using assms(1) by simp
  show ?thesis
  proof (cases "fst ?r \<and> \<not> fs_throws (snd ?r)")
    case True
    then have eq: "rotate_files (i, w) =
        openLogFile (i\<lparr>log_file := False\<rparr>, fs_rename ?p (?p @ ''.1'') (snd ?r))"
      using f by (simp add: rotate_files.simps Let_def del: openLogFile.simps)
    have "RotationFailed \<notin> set (drop (length (cerr w)) (cerr (snd (rotate_files (i, w)))))"
      unfolding eq by (simp add: Let_def split: open_outcome.splits)
    then show ?thesis using assms(2) by simp
  next
    case False
    then have eq: "rotate_files (i, w) =
        openLogFile (i\<lparr>log_file := False\<rparr>, (snd ?r)\<lparr>cerr := cerr (snd ?r) @ [RotationFailed]\<rparr>)"
      by (auto simp: rotate_files.simps Let_def simp del: openLogFile.simps)
    show ?thesis
      unfolding eq using f by (simp add: Let_def split: open_outcome.splits)
  qed
qed

lemma rotate_files_config:
  "log_file_path (fst (rotate_files (i, w))) = log_file_path i"
  "max_file_size_bytes (fst (rotate_files (i, w))) = max_file_size_bytes i"
  "max_backup_files (fst (rotate_files (i, w))) = max_backup_files i"
  "log_target (fst (rotate_files (i, w))) = log_target i"
  "should_stop (fst (rotate_files (i, w))) = should_stop i"
  "logging_thread (fst (rotate_files (i, w))) = logging_thread i"
  "current_log_level (fst (rotate_files (i, w))) = current_log_level i"
  "log_queue (fst (rotate_files (i, w))) = log_queue i"
  by (simp_all add: rotate_files_Impl)

lemma rotate_files_fs_fault [simp]:
  "fs_fault (snd (rotate_files (i, w))) = fs_fault w"
  by (simp add: rotate_files.simps Let_def split: open_outcome.splits)

lemma logMessage_config:
  "log_file_path (fst (logMessage level modname message s)) = log_file_path (fst s)"
  "max_file_size_bytes (fst (logMessage level modname message s)) = max_file_size_bytes (fst s)"
  "max_backup_files (fst (logMessage level modname message s)) = max_backup_files (fst s)"
  "log_target (fst (logMessage level modname message s)) = log_target (fst s)"
  "should_stop (fst (logMessage level modname message s)) = should_stop (fst s)"
  "logging_thread (fst (logMessage level modname message s)) = logging_thread (fst s)"
  "current_log_level (fst (logMessage level modname message s)) = current_log_level (fst s)"
  "log_file (fst (logMessage level modname message s)) = log_file (fst s)"
  "fs_fault (snd (logMessage level modname message s)) = fs_fault (snd s)"
  "cout (snd (logMessage level modname message s)) = cout (snd s)"
  by (cases s; simp)+

text \<open>\<^verbatim>\<open>writeLogMessage\<close> is its first part followed, after a rotation, by the notice.\<close>

lemma writeLogMessage_split:
  "writeLogMessage message s =
     (if fst (write_targets message s)
      then logMessage INFO ''LOGGER'' ''Log file rotated'' (snd (write_targets message s))
      else snd (write_targets message s))"
  by (cases s)
     (simp add: write_targets.simps rotateLogFile.simps Let_def
        del: console_write.simps logMessage.simps)

declare writeLogMessage.simps [simp del]

lemma write_targets_no_file:
  "\<not> ((log_target i = FILE \<or> log_target i = BOTH) \<and> log_file i) \<Longrightarrow>
   write_targets message (i, w) = (False, (i, console_write message (i, w)))"
  by (cases "log_target i"; cases "log_file i")
     (simp_all add: write_targets.simps Let_def del: console_write.simps)

lemma write_targets_rotate:
  "(log_target i = FILE \<or> log_target i = BOTH) \<and> log_file i \<Longrightarrow>
   needsRotation (i, file_write (log_file_path i) message (console_write message (i, w))) \<Longrightarrow>
   write_targets message (i, w) =
     (True,
      rotate_files (i, file_write (log_file_path i) message (console_write message (i, w))))"
  by (cases "log_target i"; cases "log_file i")
     (simp_all add: write_targets.simps Let_def del: console_write.simps)

lemma write_targets_keep:
  "(log_target i = FILE \<or> log_target i = BOTH) \<and> log_file i \<Longrightarrow>
   \<not> needsRotation (i, file_write (log_file_path i) message (console_write message (i, w))) \<Longrightarrow>
   write_targets message (i, w) =
     (False, (i, file_write (log_file_path i) message (console_write message (i, w))))"
  by (cases "log_target i"; cases "log_file i")
     (simp_all add: write_targets.simps Let_def del: console_write.simps)

lemma write_targets_config:
  "log_file_path (fst (snd (write_targets message (i, w)))) = log_file_path i"
  "max_file_size_bytes (fst (snd (write_targets message (i, w)))) = max_file_size_bytes i"
  "max_backup_files (fst (snd (write_targets message (i, w)))) = max_backup_files i"
  "log_target (fst (snd (write_targets message (i, w)))) = log_target i"
  "should_stop (fst (snd (write_targets message (i, w)))) = should_stop i"
  "logging_thread (fst (snd (write_targets message (i, w)))) = logging_thread i"
  "current_log_level (fst (snd (write_targets message (i, w)))) = current_log_level i"
  "log_queue (fst (snd (write_targets message (i, w)))) = log_queue i"
  by (simp_all add: write_targets.simps Let_def rotate_files_config
      del: console_write.simps)

lemma file_write_frame [simp]:
  "fs_fault (file_write p message w) = fs_fault w" "cout (file_write p message w) = cout w"
  "on_open (file_write p message w) = on_open w"
  "trace (file_write p message w) = trace w @ [EvWrite (message @ [CHR 0x0A]), EvFlush, EvFlush]"
  by (simp_all add: file_write_def)

lemma console_write_frame [simp]:
  "fs_fault (console_write message (i, w)) = fs_fault w"
  "files (console_write message (i, w)) = files w"
  "trace (console_write message (i, w)) = trace w"
  "on_open (console_write message (i, w)) = on_open w"
  by simp_all

lemma write_targets_fs_fault [simp]:
  "fs_fault (snd (snd (write_targets message (i, w)))) = fs_fault w"
  by (simp add: write_targets.simps Let_def del: console_write.simps)

lemma under_ceiling_alt:
  "under_ceiling s =
     (case files (snd s) (log_file_path (fst s)) of
        None \<Rightarrow> True
      | Some c \<Rightarrow> length c < max_file_size_bytes (fst s))"
  by (cases s) (simp split: option.splits)

lemma file_write_files:
  "files (file_write p message w) p =
     (case files w p of None \<Rightarrow> None | Some c \<Rightarrow> Some (c @ message @ [CHR 0x0A]))"
  by (simp add: file_write_def split: option.splits)

lemma write_targets_under_ceiling:
  assumes "\<forall>n. \<not> fs_fault w n" "0 < max_file_size_bytes i" "under_ceiling (i, w)"
  shows "under_ceiling (snd (write_targets message (i, w)))"
proof (cases "(log_target i = FILE \<or> log_target i = BOTH) \<and> log_file i")
  case False
  show ?thesis
    using assms by (simp add: write_targets_no_file [OF False])
next
  case True
  let ?w2 = "file_write (log_file_path i) message (console_write message (i, w))"
  have nf: "\<forall>n. \<not> fs_fault ?w2 n" using assms(1) by (simp del: console_write.simps)
  show ?thesis
  proof (cases "needsRotation (i, ?w2)")
    case rot: True
    then obtain c where c: "files ?w2 (log_file_path i) = Some c"
      by (auto simp: needsRotation.simps split: if_splits option.splits)
    show ?thesis
      using assms(2) rotate_files_files(2) [OF c nf]
      by (simp add: write_targets_rotate [OF True rot] under_ceiling_alt
          rotate_files_config del: console_write.simps)
  next
    case norot: False
    have "\<not> fs_throws ?w2" using nf by (simp add: fs_throws_def)
    then show ?thesis
      using True norot
      by (simp add: write_targets_keep [OF True norot] needsRotation.simps
          del: console_write.simps split: option.splits)
  qed
qed

lemma writeLogMessage_under_ceiling:
  assumes "\<forall>n. \<not> fs_fault w n" "0 < max_file_size_bytes i" "under_ceiling (i, w)"
  shows "under_ceiling (writeLogMessage message (i, w))"
  using write_targets_under_ceiling [OF assms, of message]
  by (simp add: writeLogMessage_split under_ceiling_alt logMessage_config
      del: logMessage.simps split: option.splits)

lemma worker_step_config:
  "log_file_path (fst (worker_step s)) = log_file_path (fst s)"
  "max_file_size_bytes (fst (worker_step s)) = max_file_size_bytes (fst s)"
  "log_target (fst (worker_step s)) = log_target (fst s)"
  "should_stop (fst (worker_step s)) = should_stop (fst s)"
  "max_backup_files (fst (worker_step s)) = max_backup_files (fst s)"
  "current_log_level (fst (worker_step s)) = current_log_level (fst s)"
  by (cases s; simp add: write_targets_config case_prod_beta
      split: option.splits worker_pc.splits list.splits)+

lemma worker_step_fs_fault [simp]: "fs_fault (snd (worker_step s)) = fs_fault (snd s)"
  by (cases s) (simp add: case_prod_beta split: option.splits worker_pc.splits list.splits)

lemma worker_step_under_ceiling:
  assumes "\<forall>n. \<not> fs_fault (snd s) n" "0 < max_file_size_bytes (fst s)" "under_ceiling s"
  shows "under_ceiling (worker_step s)"
proof (cases s)
  case (Pair i w)
  show ?thesis
  proof (cases "\<exists>m. logging_thread i = Some (WWrite m)")
    case True
    then obtain m where m: "logging_thread i = Some (WWrite m)" by blast
    have "under_ceiling (snd (write_targets m (i, w)))"
      using assms Pair by (simp add: write_targets_under_ceiling)
    then show ?thesis
      using Pair m
      by (simp add: under_ceiling_alt case_prod_beta split: option.splits)
  next
    case False
    then show ?thesis using assms Pair
      by (auto split: option.splits worker_pc.splits list.splits)
  qed
qed

declare worker_step.simps [simp del]

lemma lock_queue_cases: "lock_queue s = s \<or> lock_queue s = worker_step s"
  by (cases s) simp

lemma act_config:
  "log_file_path (fst (act a s)) = log_file_path (fst s) \<and>
   max_file_size_bytes (fst (act a s)) = max_file_size_bytes (fst s) \<and>
   log_target (fst (act a s)) = log_target (fst s) \<and>
   max_backup_files (fst (act a s)) = max_backup_files (fst s) \<and>
   fs_fault (snd (act a s)) = fs_fault (snd s)"
proof (cases a)
  case (Log level modname message)
  show ?thesis
    using lock_queue_cases [of s]
    by (cases s) (auto simp: Log worker_step_config logMessage_config simp del: logMessage.simps lock_queue.simps)
qed (cases s; simp add: worker_step_config)+

lemma act_under_ceiling:
  assumes "\<forall>n. \<not> fs_fault (snd s) n" "0 < max_file_size_bytes (fst s)" "under_ceiling s"
  shows "under_ceiling (act a s)"
proof (cases a)
  case Work
  then show ?thesis using worker_step_under_ceiling [OF assms] by simp
next
  case (Log level modname message)
  have "under_ceiling (lock_queue s)"
    using lock_queue_cases [of s] worker_step_under_ceiling [OF assms] assms(3) by auto
  then have "under_ceiling (logMessage level modname message (lock_queue s))"
    by (simp add: under_ceiling_alt logMessage_config del: logMessage.simps lock_queue.simps
        split: option.splits)
  then show ?thesis using assms(3) Log by (cases s) (simp del: logMessage.simps lock_queue.simps)
next
  case (SetLevel level)
  then show ?thesis using assms(3) by (cases s) (simp split: option.splits)
next
  case Stop
  then show ?thesis using assms(3) by (cases s) (simp split: option.splits)
next
  case (Note e)
  then show ?thesis using assms(3) by (cases s) (simp split: option.splits)
qed

lemma exec_under_ceiling:
  "\<forall>n. \<not> fs_fault (snd s) n \<Longrightarrow> 0 < max_file_size_bytes (fst s) \<Longrightarrow> under_ceiling s \<Longrightarrow>
   under_ceiling (exec sched s)"
proof (induction sched arbitrary: s)
  case Nil
  then show ?case by simp
next
  case (Cons a sched)
  have "under_ceiling (act a s)" using act_under_ceiling Cons.prems by blast
  moreover have "\<forall>n. \<not> fs_fault (snd (act a s)) n" "0 < max_file_size_bytes (fst (act a s))"
    using Cons.prems act_config [of a s] by simp_all
  ultimately show ?case using Cons.IH by simp
qed

lemma writeLogMessage_no_file:
  "\<not> ((log_target i = FILE \<or> log_target i = BOTH) \<and> log_file i) \<Longrightarrow>
   writeLogMessage message (i, w) = (i, console_write message (i, w))"
  by (simp add: writeLogMessage_split write_targets_no_file
      del: console_write.simps logMessage.simps)

lemma writeLogMessage_rotate:
  "(log_target i = FILE \<or> log_target i = BOTH) \<and> log_file i \<Longrightarrow>
   needsRotation (i, file_write (log_file_path i) message (console_write message (i, w))) \<Longrightarrow>
   writeLogMessage message (i, w) =
     rotateLogFile (i, file_write (log_file_path i) message (console_write message (i, w)))"
  by (simp add: writeLogMessage_split write_targets_rotate rotateLogFile.simps
      del: console_write.simps logMessage.simps)

lemma writeLogMessage_keep:
  "(log_target i = FILE \<or> log_target i = BOTH) \<and> log_file i \<Longrightarrow>
   \<not> needsRotation (i, file_write (log_file_path i) message (console_write message (i, w))) \<Longrightarrow>
   writeLogMessage message (i, w) =
     (i, file_write (log_file_path i) message (console_write message (i, w)))"
  by (simp add: writeLogMessage_split write_targets_keep
      del: console_write.simps logMessage.simps)

lemma logMessage_cerr [simp]:
  "cerr (snd (logMessage level modname message s)) = cerr (snd s)"
  by (cases s) simp

text \<open>
  Claim C3, as the code has it. \<^verbatim>\<open>writeLogMessage\<close> looks at the file's size only after it
  has written to the file: with the file target off or the file closed it leaves the
  engine, the files and the trace as they are. After a write it rotates exactly when the
  size query answers and the size it measures has reached the ceiling
  (\<^verbatim>\<open>file_size >= max_file_size_bytes\<close>). So a file that was below the ceiling is, right
  after the write, at most the ceiling plus the record's length. When no call of the
  filesystem fails, the rotation moves the whole content to \<^verbatim>\<open>path.1\<close> and leaves a fresh
  active file, or none when the path does not open again; hence, with a positive ceiling,
  a file below the ceiling is below it again when \<^verbatim>\<open>writeLogMessage\<close> returns, and at
  every point of every execution. A rotation that reports its failure has kept the
  active file, with all its content, at its path.
\<close>

theorem file_size_bound:
  "(\<not> ((log_target i = FILE \<or> log_target i = BOTH) \<and> log_file i) \<longrightarrow>
      fst (writeLogMessage message (i, w)) = i \<and>
      files (snd (writeLogMessage message (i, w))) = files w \<and>
      trace (snd (writeLogMessage message (i, w))) = trace w) \<and>
   ((log_target i = FILE \<or> log_target i = BOTH) \<and> log_file i \<and>
    files w (log_file_path i) = Some c \<longrightarrow>
      files (file_write (log_file_path i) message (console_write message (i, w)))
        (log_file_path i) = Some (c @ message @ [CHR 0x0A]) \<and>
      writeLogMessage message (i, w) =
        (if max_file_size_bytes i \<le> length (c @ message @ [CHR 0x0A]) \<and>
            \<not> fs_throws (file_write (log_file_path i) message (console_write message (i, w)))
         then rotateLogFile
                (i, file_write (log_file_path i) message (console_write message (i, w)))
         else (i, file_write (log_file_path i) message (console_write message (i, w)))) \<and>
      (length c < max_file_size_bytes i \<longrightarrow>
         length (c @ message @ [CHR 0x0A]) \<le> max_file_size_bytes i + length message) \<and>
      (max_file_size_bytes i \<le> length (c @ message @ [CHR 0x0A]) \<and>
       (\<forall>n. \<not> fs_fault w n) \<longrightarrow>
         files (snd (writeLogMessage message (i, w))) (log_file_path i @ ''.1'') =
           Some (c @ message @ [CHR 0x0A]) \<and>
         files (snd (writeLogMessage message (i, w))) (log_file_path i) =
           (if on_open w (log_file_path i) = Opens then Some [] else None)) \<and>
      (RotationFailed \<in>
         set (drop (length (cerr w)) (cerr (snd (writeLogMessage message (i, w))))) \<longrightarrow>
         files (snd (writeLogMessage message (i, w))) (log_file_path i) =
           Some (c @ message @ [CHR 0x0A]))) \<and>
   ((\<forall>n. \<not> fs_fault w n) \<and> 0 < max_file_size_bytes i \<and> under_ceiling (i, w) \<longrightarrow>
      under_ceiling (writeLogMessage message (i, w)) \<and>
      under_ceiling (exec sched (i, w)))"
proof (intro conjI impI)
  assume off: "\<not> ((log_target i = FILE \<or> log_target i = BOTH) \<and> log_file i)"
  show "fst (writeLogMessage message (i, w)) = i"
    by (simp add: writeLogMessage_no_file [OF off])
  show "files (snd (writeLogMessage message (i, w))) = files w"
    by (simp add: writeLogMessage_no_file [OF off])
  show "trace (snd (writeLogMessage message (i, w))) = trace w"
    by (simp add: writeLogMessage_no_file [OF off])
next
  assume on: "(log_target i = FILE \<or> log_target i = BOTH) \<and> log_file i \<and>
    files w (log_file_path i) = Some c"
  let ?w2 = "file_write (log_file_path i) message (console_write message (i, w))"
  show w2: "files ?w2 (log_file_path i) = Some (c @ message @ [CHR 0x0A])"
    using on by (simp add: file_write_files)
  have on': "(log_target i = FILE \<or> log_target i = BOTH) \<and> log_file i"
    using on by blast
  have rot: "needsRotation (i, ?w2) \<longleftrightarrow>
      max_file_size_bytes i \<le> length (c @ message @ [CHR 0x0A]) \<and> \<not> fs_throws ?w2"
    using on w2 by (auto simp: needsRotation.simps simp del: console_write.simps)
  show eq: "writeLogMessage message (i, w) =
      (if max_file_size_bytes i \<le> length (c @ message @ [CHR 0x0A]) \<and> \<not> fs_throws ?w2
       then rotateLogFile (i, ?w2) else (i, ?w2))"
  proof (cases "needsRotation (i, ?w2)")
    case True
    then show ?thesis using rot writeLogMessage_rotate [OF on' True] by simp
  next
    case False
    then show ?thesis using rot writeLogMessage_keep [OF on' False] by auto
  qed
  show "length (c @ message @ [CHR 0x0A]) \<le> max_file_size_bytes i + length message"
    if "length c < max_file_size_bytes i"
    using that by simp
  {
    assume a: "max_file_size_bytes i \<le> length (c @ message @ [CHR 0x0A]) \<and>
      (\<forall>n. \<not> fs_fault w n)"
    have nf: "\<forall>n. \<not> fs_fault ?w2 n" using a by (simp del: console_write.simps)
    then have "\<not> fs_throws ?w2" by (simp add: fs_throws_def)
    then have e: "writeLogMessage message (i, w) = rotateLogFile (i, ?w2)"
      using eq a by simp
    show "files (snd (writeLogMessage message (i, w))) (log_file_path i @ ''.1'') =
        Some (c @ message @ [CHR 0x0A])"
      using rotate_files_files(1) [OF w2 nf] by (simp add: e rotateLogFile.simps)
    show "files (snd (writeLogMessage message (i, w))) (log_file_path i) =
        (if on_open w (log_file_path i) = Opens then Some [] else None)"
      using rotate_files_files(2) [OF w2 nf]
      by (simp add: e rotateLogFile.simps del: console_write.simps)
  }
  {
    assume f: "RotationFailed \<in>
      set (drop (length (cerr w)) (cerr (snd (writeLogMessage message (i, w)))))"
    have cw: "cerr ?w2 = cerr w" by (simp add: file_write_def)
    show "files (snd (writeLogMessage message (i, w))) (log_file_path i) =
        Some (c @ message @ [CHR 0x0A])"
    proof (cases "needsRotation (i, ?w2)")
      case True
      then have e: "writeLogMessage message (i, w) = rotateLogFile (i, ?w2)"
        using writeLogMessage_rotate [OF on' True] by simp
      have "RotationFailed \<in> set (drop (length (cerr ?w2)) (cerr (snd (rotate_files (i, ?w2)))))"
        using f by (simp add: e rotateLogFile.simps cw del: console_write.simps)
      then show ?thesis
        using rotate_files_failed [OF w2] by (simp add: e rotateLogFile.simps)
    next
      case False
      then have "writeLogMessage message (i, w) = (i, ?w2)"
        using writeLogMessage_keep [OF on' False] by simp
      then show ?thesis using f cw by simp
    qed
  }
next
  assume a: "(\<forall>n. \<not> fs_fault w n) \<and> 0 < max_file_size_bytes i \<and> under_ceiling (i, w)"
  show "under_ceiling (writeLogMessage message (i, w))"
    using a by (simp add: writeLogMessage_under_ceiling)
  show "under_ceiling (exec sched (i, w))"
    using a exec_under_ceiling [of "(i, w)" sched] by simp
qed

lemmas run_eval =
  worker_step.simps write_targets.simps needsRotation.simps file_write_def fs_throws_def
  notified_def

lemmas write_eval =
  writeLogMessage.simps needsRotation.simps file_write_def fs_throws_def

theorem file_size_bound_witness:
  "\<not> ((log_target (run0\<lparr>log_target := CONSOLE\<rparr>) = FILE \<or>
        log_target (run0\<lparr>log_target := CONSOLE\<rparr>) = BOTH) \<and>
       log_file (run0\<lparr>log_target := CONSOLE\<rparr>)) \<and>
   files (snd (writeLogMessage ''hello'' (run0\<lparr>log_target := CONSOLE\<rparr>, w1))) = files w1 \<and>
   (log_target run0 = FILE \<or> log_target run0 = BOTH) \<and> log_file run0 \<and>
   files w1 (log_file_path run0) = Some [] \<and>
   length ([] :: string) < max_file_size_bytes run0 \<and>
   files (snd (writeLogMessage ''hello'' (run0, w1))) ''app.log'' =
     Some (''hello'' @ [CHR 0x0A]) \<and>
   (\<forall>n. \<not> fs_fault w1 n) \<and> 0 < max_file_size_bytes run0 \<and> under_ceiling (run0, w1) \<and>
   under_ceiling (exec [Log WARN ''NET'' ''down'', Work, Work, Work] (run0, w1)) \<and>
   (log_target log0 = FILE \<or> log_target log0 = BOTH) \<and> log_file log0 \<and>
   files wfull (log_file_path log0) = Some (replicate 1048571 CHR ''x'') \<and>
   max_file_size_bytes log0 \<le> length (replicate 1048571 CHR ''x'' @ ''abcd'' @ [CHR 0x0A]) \<and>
   (\<forall>n. \<not> fs_fault wfull n) \<and>
   files (snd (writeLogMessage ''abcd'' (log0, wfull))) (log_file_path log0 @ ''.1'') =
     Some (replicate 1048571 CHR ''x'' @ ''abcd'' @ [CHR 0x0A]) \<and>
   files wrefuse (log_file_path log0) = Some (replicate 1048571 CHR ''x'') \<and>
   RotationFailed \<in>
     set (drop (length (cerr wrefuse)) (cerr (snd (writeLogMessage ''abcd'' (log0, wrefuse))))) \<and>
   files (snd (writeLogMessage ''abcd'' (log0, wrefuse))) (log_file_path log0) =
     Some (replicate 1048571 CHR ''x'' @ ''abcd'' @ [CHR 0x0A])"
proof -
  let ?con = "run0\<lparr>log_target := CONSOLE\<rparr>"
  let ?c = "replicate 1048571 CHR ''x''"
  have a1: "\<not> ((log_target ?con = FILE \<or> log_target ?con = BOTH) \<and> log_file ?con)"
    by (simp add: run0_def)
  have a2: "files (snd (writeLogMessage ''hello'' (?con, w1))) = files w1"
    using file_size_bound [where i = ?con and w = w1 and message = "''hello''"] a1 by blast
  have b1: "(log_target run0 = FILE \<or> log_target run0 = BOTH) \<and> log_file run0 \<and>
      files w1 (log_file_path run0) = Some []"
    by (simp add: run0_def w1_def w0_def)
  have b2: "length ([] :: string) < max_file_size_bytes run0"
    by (simp add: run0_def)
  have b3: "writeLogMessage ''hello'' (run0, w1) =
      (if max_file_size_bytes run0 \<le> length ([] @ ''hello'' @ [CHR 0x0A]) \<and>
          \<not> fs_throws (file_write (log_file_path run0) ''hello''
                (console_write ''hello'' (run0, w1)))
       then rotateLogFile
              (run0, file_write (log_file_path run0) ''hello''
                 (console_write ''hello'' (run0, w1)))
       else (run0, file_write (log_file_path run0) ''hello''
               (console_write ''hello'' (run0, w1))))"
    using file_size_bound [where i = run0 and w = w1 and message = "''hello''" and c = "[]"]
      b1 by blast
  have b4: "files (snd (writeLogMessage ''hello'' (run0, w1))) ''app.log'' =
      Some (''hello'' @ [CHR 0x0A])"
    unfolding b3 by (simp add: run0_def w1_def w0_def file_write_def)
  have c1: "(\<forall>n. \<not> fs_fault w1 n) \<and> 0 < max_file_size_bytes run0 \<and> under_ceiling (run0, w1)"
    by (simp add: run0_def w1_def w0_def)
  have c2: "under_ceiling (exec [Log WARN ''NET'' ''down'', Work, Work, Work] (run0, w1))"
    using file_size_bound [where i = run0 and w = w1
        and sched = "[Log WARN ''NET'' ''down'', Work, Work, Work]"] c1
    by blast
  have d1: "(log_target log0 = FILE \<or> log_target log0 = BOTH) \<and> log_file log0 \<and>
      files wfull (log_file_path log0) = Some ?c"
    by (simp add: log0_def wfull_def w0_def)
  have d2: "max_file_size_bytes log0 \<le> length (?c @ ''abcd'' @ [CHR 0x0A]) \<and>
      (\<forall>n. \<not> fs_fault wfull n)"
    by (simp add: log0_def wfull_def w0_def)
  have d3: "files (snd (writeLogMessage ''abcd'' (log0, wfull))) (log_file_path log0 @ ''.1'') =
      Some (?c @ ''abcd'' @ [CHR 0x0A])"
    using file_size_bound [where i = log0 and w = wfull and message = "''abcd''" and c = ?c]
      d1 d2 by blast
  have e1: "(log_target log0 = FILE \<or> log_target log0 = BOTH) \<and> log_file log0 \<and>
      files wrefuse (log_file_path log0) = Some ?c"
    by (simp add: log0_def wrefuse_def wfull_def w0_def)
  have e2: "RotationFailed \<in>
      set (drop (length (cerr wrefuse)) (cerr (snd (writeLogMessage ''abcd'' (log0, wrefuse)))))"
    by (simp add: write_eval rotate_eval log0_def wrefuse_def wfull_def w0_def)
  have e3: "files (snd (writeLogMessage ''abcd'' (log0, wrefuse))) (log_file_path log0) =
      Some (?c @ ''abcd'' @ [CHR 0x0A])"
    using file_size_bound [where i = log0 and w = wrefuse and message = "''abcd''" and c = ?c]
      e1 e2 by blast
  show ?thesis
    using a1 a2 b1 b2 b4 c1 c2 d1 d2 d3 e1 e2 e3 by blast
qed

text \<open>
  The claim as stated rotates only when the measured size exceeds the ceiling. With a
  ceiling of 1048576 bytes and a file of 1048571 bytes, the record \<^verbatim>\<open>abcd\<close> and its line
  break make the file exactly 1048576 bytes long, and the code rotates: the content is
  found at \<^verbatim>\<open>logs/app.log.1\<close> and the active file is fresh. And the size is not bounded by
  the ceiling plus one record: when the filesystem refuses the \<^verbatim>\<open>rename\<close> of that rotation
  and the calls after it, the active file keeps its content, and after two more records
  it is ten bytes longer than the ceiling.
\<close>

theorem rotation_at_ceiling_counterexample:
  "length (replicate 1048571 CHR ''x'' @ ''abcd'' @ [CHR 0x0A]) = max_file_size_bytes log0 \<and>
   files wfull ''logs/app.log'' = Some (replicate 1048571 CHR ''x'') \<and>
   files (snd (writeLogMessage ''abcd'' (log0, wfull))) ''logs/app.log.1'' =
     Some (replicate 1048571 CHR ''x'' @ ''abcd'' @ [CHR 0x0A]) \<and>
   files (snd (writeLogMessage ''abcd'' (log0, wfull))) ''logs/app.log'' = Some [] \<and>
   files (snd (writeLogMessage ''abcd'' (writeLogMessage ''abcd''
       (writeLogMessage ''abcd'' (log0, wrefuse))))) ''logs/app.log'' =
     Some (replicate 1048571 CHR ''x'' @ ''abcd'' @ [CHR 0x0A] @ ''abcd'' @ [CHR 0x0A] @
           ''abcd'' @ [CHR 0x0A]) \<and>
   max_file_size_bytes log0 + length (''abcd'' @ [CHR 0x0A]) <
     length (replicate 1048571 CHR ''x'' @ ''abcd'' @ [CHR 0x0A] @ ''abcd'' @ [CHR 0x0A] @
             ''abcd'' @ [CHR 0x0A])"
proof -
  let ?c = "replicate 1048571 CHR ''x''"
  have 1: "length (?c @ ''abcd'' @ [CHR 0x0A]) = max_file_size_bytes log0"
    by (simp add: log0_def)
  have 2: "files wfull ''logs/app.log'' = Some ?c"
    by (simp add: wfull_def w0_def)
  have 3: "files (snd (writeLogMessage ''abcd'' (log0, wfull))) ''logs/app.log.1'' =
      Some (?c @ ''abcd'' @ [CHR 0x0A]) \<and>
    files (snd (writeLogMessage ''abcd'' (log0, wfull))) ''logs/app.log'' = Some []"
    by (simp add: write_eval rotate_eval log0_def wfull_def w0_def)
  have 4: "files (snd (writeLogMessage ''abcd'' (writeLogMessage ''abcd''
       (writeLogMessage ''abcd'' (log0, wrefuse))))) ''logs/app.log'' =
     Some (?c @ ''abcd'' @ [CHR 0x0A] @ ''abcd'' @ [CHR 0x0A] @ ''abcd'' @ [CHR 0x0A])"
    by (simp add: write_eval rotate_eval log0_def wrefuse_def wfull_def w0_def)
  have 5: "max_file_size_bytes log0 + length (''abcd'' @ [CHR 0x0A]) <
     length (?c @ ''abcd'' @ [CHR 0x0A] @ ''abcd'' @ [CHR 0x0A] @ ''abcd'' @ [CHR 0x0A])"
    by (simp add: log0_def)
  show ?thesis using 1 2 3 4 5 by blast
qed

subsection \<open>The backup chain\<close>

text \<open>Decimal printing can be read back, so distinct numbers give distinct backup paths.\<close>

lemma digit_value_digit_char: "d < 10 \<Longrightarrow> digit_value (digit_char d) = d"
proof -
  assume "d < 10"
  then have "d \<in> {0, 1, 2, 3, 4, 5, 6, 7, 8, 9}" by auto
  then show ?thesis
    by (auto simp: digit_value_def digit_char_def)
qed

lemma of_digits_to_string: "of_digits (to_string n) = n"
proof (induction n rule: to_string.induct)
  case (1 n)
  show ?case
  proof (cases "n < 10")
    case True
    then show ?thesis by (simp add: to_string_small digit_value_digit_char)
  next
    case False
    then have "of_digits (to_string (n div 10)) = n div 10" using 1 by simp
    then show ?thesis
      using False by (simp add: to_string_large digit_value_digit_char)
  qed
qed

lemma to_string_inj: "to_string m = to_string n \<longleftrightarrow> m = n"
  by (metis of_digits_to_string)

lemma backup_path_inj:
  "p @ ''.'' @ to_string m = p @ ''.'' @ to_string n \<longleftrightarrow> m = n"
  by (simp add: to_string_inj)

lemma fs_remove_other: "q \<noteq> p \<Longrightarrow> files (fs_remove p w) q = files w q"
  by (simp add: fs_remove_def)

lemma fs_rename_other:
  "q \<noteq> old \<Longrightarrow> q \<noteq> new \<Longrightarrow> files (fs_rename old new w) q = files w q"
  by (simp add: fs_rename_def)

text \<open>The loop started at or below the oldest slot leaves every higher slot alone.\<close>

lemma rotate_backups_above:
  "k \<le> oldest \<Longrightarrow> oldest < j \<Longrightarrow>
   files (snd (rotate_backups k oldest p w)) (p @ ''.'' @ to_string j) =
   files w (p @ ''.'' @ to_string j)"
proof (induction k arbitrary: w)
  case 0
  then show ?case by simp
next
  case (Suc k)
  let ?old = "p @ ''.'' @ to_string (Suc k)"
  let ?new = "p @ ''.'' @ to_string (Suc k + 1)"
  let ?J = "p @ ''.'' @ to_string j"
  let ?w = "if Suc k = oldest then fs_remove ?old w else fs_rename ?old ?new w"
  have ne1: "?J \<noteq> ?old"
    using Suc.prems backup_path_inj [of p j "Suc k"] by simp
  have ne2: "Suc k \<noteq> oldest \<Longrightarrow> ?J \<noteq> ?new"
    using Suc.prems backup_path_inj [of p j "Suc k + 1"] by simp
  have a: "files ?w ?J = files w ?J"
  proof (cases "Suc k = oldest")
    case top: True
    have "?w = fs_remove ?old w" using top by simp
    then show ?thesis using fs_remove_other [OF ne1] by simp
  next
    case below: False
    have "?w = fs_rename ?old ?new w" using below by simp
    then show ?thesis using fs_rename_other [OF ne1 ne2 [OF below]] by simp
  qed
  have b: "files (snd (rotate_backups k oldest p w')) ?J = files w' ?J" for w'
    using Suc.prems by (intro Suc.IH) simp_all
  show ?case
  proof (cases "files w ?old \<noteq> None")
    case False
    then have "rotate_backups (Suc k) oldest p w = rotate_backups k oldest p w"
      by (simp add: Let_def)
    then show ?thesis using b [of w] by simp
  next
    case True
    show ?thesis
    proof (cases "fs_throws w")
      case thr: True
      then have "rotate_backups (Suc k) oldest p w = (False, w)"
        using True by (simp add: Let_def)
      then show ?thesis by simp
    next
      case ok: False
      then have "rotate_backups (Suc k) oldest p w = rotate_backups k oldest p ?w"
        using True by (simp add: Let_def)
      then show ?thesis using b [of ?w] a by simp
    qed
  qed
qed

lemma backups_top_loop_start:
  assumes "1 \<le> n" "n \<le> 2 ^ 31"
  shows "backups_top n = n - 1" "loop_start n = n - 1"
proof -
  obtain m where m: "n = Suc m" using assms(1) by (cases n) auto
  have small: "m < 2 ^ 31" using assms(2) m by simp
  have "backups_top n = (m + 2 ^ 64) mod 2 ^ 64"
    by (simp add: backups_top_def m)
  also have "\<dots> = m mod 2 ^ 64" by simp
  also have "\<dots> = m" using small by simp
  finally show t: "backups_top n = n - 1" by (simp add: m)
  have t': "backups_top (Suc m) = m" using t m by simp
  have "m mod 2 ^ 32 = m" using small by simp
  then show "loop_start n = n - 1"
    using small by (simp add: loop_start_def t' m Let_def)
qed

lemma to_string_1: "to_string (Suc 0) = ''1''"
  by (simp add: to_string_small digit_char_def)

lemma openLogFile_other:
  "q \<noteq> log_file_path i \<Longrightarrow> files (snd (openLogFile (i, w))) q = files w q"
  by (simp add: Let_def split: open_outcome.splits)

text \<open>
  For a backup count \<open>N\<close> from 2 to \<open>2 ^ 31\<close>, a rotation leaves \<^verbatim>\<open>path.N\<close> and every
  higher slot as they were: no backup ever reaches slot \<open>N\<close>.
\<close>

lemma rotate_files_last_slot_unused:
  assumes "2 \<le> max_backup_files i" "max_backup_files i \<le> 2 ^ 31" "max_backup_files i \<le> j"
  shows "files (snd (rotate_files (i, w))) (log_file_path i @ ''.'' @ to_string j) =
         files w (log_file_path i @ ''.'' @ to_string j)"
proof -
  let ?p = "log_file_path i"
  let ?J = "?p @ ''.'' @ to_string j"
  let ?n = "max_backup_files i"
  let ?w1 = "w\<lparr>trace := trace w @ [EvClose]\<rparr>"
  let ?w2 = "snd (rotate_backups (loop_start ?n) (backups_top ?n) ?p ?w1)"
  let ?ok = "fst (rotate_backups (loop_start ?n) (backups_top ?n) ?p ?w1)"
  let ?w3 = "if ?ok \<and> files ?w2 ?p \<noteq> None \<and> \<not> fs_throws ?w2
             then fs_rename ?p (?p @ ''.1'') ?w2
             else ?w2\<lparr>cerr := cerr ?w2 @ [RotationFailed]\<rparr>"
  have n: "backups_top ?n = ?n - 1" "loop_start ?n = ?n - 1"
    using backups_top_loop_start [of ?n] assms by simp_all
  have 2: "files ?w2 ?J = files w ?J"
    unfolding n using rotate_backups_above [of "?n - 1" "?n - 1" j ?p ?w1] assms by simp
  have ne1: "?J \<noteq> ?p" by simp
  have "to_string j \<noteq> to_string (Suc 0)"
    using assms by (simp add: to_string_inj)
  then have ne2: "?J \<noteq> ?p @ ''.1''" by (simp add: to_string_1)
  have 3: "files ?w3 ?J = files ?w2 ?J"
    using fs_rename_other [OF ne1 ne2] by simp
  have "rotate_files (i, w) = openLogFile (i\<lparr>log_file := False\<rparr>, ?w3)"
    by (simp add: rotate_files.simps Let_def del: openLogFile.simps)
  then have "files (snd (rotate_files (i, w))) ?J =
      files (snd (openLogFile (i\<lparr>log_file := False\<rparr>, ?w3))) ?J"
    by simp
  also have "\<dots> = files ?w3 ?J"
    using openLogFile_other [of ?J "i\<lparr>log_file := False\<rparr>" ?w3] ne1
    by (simp del: openLogFile.simps)
  finally show ?thesis using 2 3 by simp
qed

lemma rotateLogFile_last_slot_unused:
  assumes "2 \<le> max_backup_files i" "max_backup_files i \<le> 2 ^ 31" "max_backup_files i \<le> j"
  shows "files (snd (rotateLogFile (i, w))) (log_file_path i @ ''.'' @ to_string j) =
         files w (log_file_path i @ ''.'' @ to_string j)"
  using rotate_files_last_slot_unused [OF assms, of w]
  by (simp add: rotateLogFile.simps)

text \<open>
  Claim C4, on the code. With \<^verbatim>\<open>max_backup_files = 2\<close>, the active file \<^verbatim>\<open>app.log\<close> and one
  backup \<^verbatim>\<open>app.log.1\<close>, a rotation leaves the fresh active file and \<^verbatim>\<open>app.log.1\<close> with
  the former active content: the former \<^verbatim>\<open>app.log.1\<close> is deleted, and there is no
  \<^verbatim>\<open>app.log.2\<close>. With \<^verbatim>\<open>max_backup_files = 5\<close> and backups 1 to 4, a rotation shifts
  backups 1 to 3, deletes backup 4 and creates no \<^verbatim>\<open>app.log.5\<close>.
\<close>

theorem rotation_deletes_slot_before_last:
  "max_backup_files two0 = 2 \<and>
   files wtwo ''app.log.1'' = Some ''old'' \<and>
   dom (files (snd (rotateLogFile (two0, wtwo)))) = {''app.log'', ''app.log.1''} \<and>
   files (snd (rotateLogFile (two0, wtwo))) ''app.log.1'' = Some ''new'' \<and>
   files (snd (rotateLogFile (two0, wtwo))) ''app.log'' = Some [] \<and>
   max_backup_files five0 = 5 \<and>
   files wfive ''app.log.4'' = Some ''a'' \<and>
   dom (files (snd (rotateLogFile (five0, wfive)))) =
     {''app.log'', ''app.log.1'', ''app.log.2'', ''app.log.3'', ''app.log.4''} \<and>
   files (snd (rotateLogFile (five0, wfive))) ''app.log.1'' = Some ''e'' \<and>
   files (snd (rotateLogFile (five0, wfive))) ''app.log.2'' = Some ''d'' \<and>
   files (snd (rotateLogFile (five0, wfive))) ''app.log.3'' = Some ''c'' \<and>
   files (snd (rotateLogFile (five0, wfive))) ''app.log.4'' = Some ''b''"
  by (simp add: rotate_eval two0_def five0_def run0_def wtwo_def wfive_def w0_def)

subsection \<open>The worker's exit\<close>


lemma writes_append: "writes (xs @ ys) s = writes xs s @ writes ys (exec xs s)"
  by (induction xs arbitrary: s) simp_all


lemma worker_exit_step:
  assumes "logging_thread i \<noteq> Some WExit"
    and "logging_thread (fst (worker_step (i, w))) = Some WExit"
  shows "should_stop i \<and> log_queue i = [] \<and> logging_thread i = Some WTop \<and>
         worker_step (i, w) = (i\<lparr>logging_thread := Some WExit\<rparr>, w)"
  using assms
  by (auto simp: worker_step.simps case_prod_beta write_targets_config
      split: option.splits worker_pc.splits list.splits if_splits)

lemma worker_step_pending:
  "\<exists>ext. written_by Work s @ pending (worker_step s) = pending s @ ext"
  by (cases s)
     (auto simp: worker_step.simps case_prod_beta write_targets_config
      split: option.splits worker_pc.splits list.splits)

lemma lock_queue_pending: "pending (lock_queue s) = pending s"
  by (cases s) (auto simp: worker_step.simps split: list.splits)

lemma logMessage_pending:
  "\<exists>ext. pending (logMessage level modname message s) = pending s @ ext"
  by (cases s) simp

lemma act_pending: "\<exists>ext. written_by a s @ pending (act a s) = pending s @ ext"
proof (cases a)
  case Work
  then show ?thesis using worker_step_pending [of s] by simp
next
  case (Log level modname message)
  obtain i w where s: "s = (i, w)" by (cases s)
  obtain ext where "pending (logMessage level modname message (lock_queue s)) =
      pending (lock_queue s) @ ext"
    using logMessage_pending by blast
  then have "pending (logMessage level modname message (lock_queue s)) = pending s @ ext"
    by (simp add: lock_queue_pending)
  then show ?thesis
    using Log s by (cases "level_value level < level_value (current_log_level i)")
      (simp_all del: logMessage.simps lock_queue.simps pending.simps)
next
  case (SetLevel level)
  then show ?thesis by (cases s) auto
next
  case Stop
  then show ?thesis by (cases s) auto
next
  case (Note e)
  then show ?thesis by (cases s) auto
qed

lemma lock_queue_thread:
  "logging_thread (fst (lock_queue s)) = Some WExit \<longleftrightarrow> logging_thread (fst s) = Some WExit"
  by (cases s) (auto simp: worker_step.simps split: list.splits)

lemma act_thread:
  "a \<noteq> Work \<Longrightarrow>
   logging_thread (fst (act a s)) = Some WExit \<longleftrightarrow> logging_thread (fst s) = Some WExit"
proof (cases a)
  case (Log level modname message)
  show ?thesis
    using lock_queue_thread [of s]
    by (cases s) (simp add: Log logMessage_config del: logMessage.simps lock_queue.simps)
qed (cases s; simp)+

lemma act_exit:
  assumes "logging_thread (fst s) \<noteq> Some WExit"
    and "logging_thread (fst (act a s)) = Some WExit"
  shows "pending s = [] \<and> should_stop (fst (act a s))"
proof -
  have a: "a = Work" using assms act_thread [of a s] by metis
  obtain i w where s: "s = (i, w)" by (cases s)
  show ?thesis
    using worker_exit_step [of i w] assms by (simp add: a s)
qed

lemma lock_queue_stop: "should_stop (fst (lock_queue s)) = should_stop (fst s)"
  using lock_queue_cases [of s] by (auto simp: worker_step_config)

lemma act_stop: "should_stop (fst s) \<Longrightarrow> should_stop (fst (act a s))"
proof (cases a)
  case (Log level modname message)
  assume "should_stop (fst s)"
  then show ?thesis
    using lock_queue_stop [of s]
    by (cases s) (simp add: Log logMessage_config del: logMessage.simps lock_queue.simps)
qed (cases s; simp add: worker_step_config)+

lemma exec_stop: "should_stop (fst s) \<Longrightarrow> should_stop (fst (exec sched s))"
  by (induction sched arbitrary: s) (simp_all add: act_stop)

lemma exec_exit:
  "logging_thread (fst s) \<noteq> Some WExit \<Longrightarrow>
   logging_thread (fst (exec sched s)) = Some WExit \<Longrightarrow>
   should_stop (fst (exec sched s)) \<and> (\<exists>ext. writes sched s = pending s @ ext)"
proof (induction sched arbitrary: s)
  case Nil
  then show ?case by simp
next
  case (Cons a sched)
  show ?case
  proof (cases "logging_thread (fst (act a s)) = Some WExit")
    case True
    then have "pending s = [] \<and> should_stop (fst (act a s))"
      using act_exit Cons.prems(1) by blast
    then show ?thesis by (simp add: exec_stop)
  next
    case False
    then have ih: "should_stop (fst (exec sched (act a s))) \<and>
        (\<exists>ext. writes sched (act a s) = pending (act a s) @ ext)"
      using Cons.IH Cons.prems(2) by simp
    then obtain r where r: "writes sched (act a s) = pending (act a s) @ r"
      by blast
    obtain ext where "written_by a s @ pending (act a s) = pending s @ ext"
      using act_pending by blast
    then have "writes (a # sched) s = pending s @ ext @ r"
      using r by simp
    then show ?thesis using ih by simp
  qed
qed

text \<open>What an execution puts on the console: the records that the worker wrote.\<close>

lemma write_targets_cout:
  "cout (snd (snd (write_targets message (i, w)))) =
     (if log_target i = FILE then cout w else cout w @ [message])"
  by (cases "log_target i") (simp_all add: write_targets.simps Let_def)

lemma worker_step_cout:
  "cout (snd (worker_step s)) =
     cout (snd s) @ (if log_target (fst s) = FILE then [] else written_by Work s)"
  by (cases s)
     (auto simp: worker_step.simps case_prod_beta write_targets_cout
      split: option.splits worker_pc.splits list.splits)

lemma lock_queue_cout: "cout (snd (lock_queue s)) = cout (snd s)"
  by (cases s) (auto simp: worker_step.simps split: list.splits)

lemma act_cout:
  "cout (snd (act a s)) =
     cout (snd s) @ (if log_target (fst s) = FILE then [] else written_by a s)"
proof (cases a)
  case Work
  then show ?thesis using worker_step_cout [of s] by simp
next
  case (Log level modname message)
  show ?thesis
    using lock_queue_cout [of s]
    by (cases s) (simp add: Log logMessage_config del: logMessage.simps lock_queue.simps)
qed (cases s; simp)+

lemma exec_cout:
  "cout (snd (exec sched s)) =
     cout (snd s) @ (if log_target (fst s) = FILE then [] else writes sched s)"
proof (induction sched arbitrary: s)
  case Nil
  then show ?case by simp
next
  case (Cons a sched)
  have t: "log_target (fst (act a s)) = log_target (fst s)"
    using act_config [of a s] by simp
  show ?case
    using Cons.IH [of "act a s"] act_cout [of a s] t by simp
qed

text \<open>
  What an execution appends to the active file, as long as the file stays below the
  ceiling: the records that the worker wrote, a line each.
\<close>

lemma file_lines_append [simp]: "file_lines (xs @ ys) = file_lines xs @ file_lines ys"
  by (simp add: file_lines_def)

lemma file_lines_Nil [simp]: "file_lines [] = []"
  by (simp add: file_lines_def)

lemma file_lines_single [simp]: "file_lines [m] = m @ [CHR 0x0A]"
  by (simp add: file_lines_def)

lemma worker_step_file:
  assumes "log_target i \<noteq> CONSOLE" "log_file i" "files w (log_file_path i) = Some c"
    and "length (c @ file_lines (written_by Work (i, w))) < max_file_size_bytes i"
  shows "files (snd (worker_step (i, w))) (log_file_path i) =
           Some (c @ file_lines (written_by Work (i, w))) \<and>
         log_file (fst (worker_step (i, w)))"
proof (cases "\<exists>m. logging_thread i = Some (WWrite m)")
  case True
  then obtain m where m: "logging_thread i = Some (WWrite m)" by blast
  let ?w2 = "file_write (log_file_path i) m (console_write m (i, w))"
  have on: "(log_target i = FILE \<or> log_target i = BOTH) \<and> log_file i"
    using assms(1,2) by (cases "log_target i") simp_all
  have f: "files ?w2 (log_file_path i) = Some (c @ m @ [CHR 0x0A])"
    using assms(3) by (simp add: file_write_files)
  have "\<not> needsRotation (i, ?w2)"
    using assms(4) f m by (simp add: needsRotation.simps del: console_write.simps)
  then have "write_targets m (i, w) = (False, (i, ?w2))"
    using write_targets_keep [OF on] by simp
  then show ?thesis
    using m f assms(2) by (simp add: worker_step.simps del: console_write.simps)
next
  case False
  then show ?thesis
    using assms(2,3)
    by (auto simp: worker_step.simps split: option.splits worker_pc.splits list.splits)
qed

lemma lock_queue_file:
  "files (snd (lock_queue s)) = files (snd s) \<and> log_file (fst (lock_queue s)) = log_file (fst s)"
  by (cases s) (auto simp: worker_step.simps split: list.splits)

lemma act_file:
  assumes "log_target (fst s) \<noteq> CONSOLE" "log_file (fst s)"
    "files (snd s) (log_file_path (fst s)) = Some c"
    and "length (c @ file_lines (written_by a s)) < max_file_size_bytes (fst s)"
  shows "files (snd (act a s)) (log_file_path (fst s)) = Some (c @ file_lines (written_by a s)) \<and>
         log_file (fst (act a s))"
proof (cases a)
  case Work
  obtain i w where s: "s = (i, w)" by (cases s)
  show ?thesis
    using worker_step_file [of i w c] assms Work s by simp
next
  case (Log level modname message)
  show ?thesis
    using lock_queue_file [of s] assms(2,3)
    by (cases s) (simp add: Log logMessage_config del: logMessage.simps lock_queue.simps)
next
  case (SetLevel level)
  then show ?thesis using assms(2,3) by (cases s) simp
next
  case Stop
  then show ?thesis using assms(2,3) by (cases s) simp
next
  case (Note e)
  then show ?thesis using assms(2,3) by (cases s) simp
qed

lemma exec_file:
  "log_target (fst s) \<noteq> CONSOLE \<Longrightarrow> log_file (fst s) \<Longrightarrow>
   files (snd s) (log_file_path (fst s)) = Some c \<Longrightarrow>
   length (c @ file_lines (writes sched s)) < max_file_size_bytes (fst s) \<Longrightarrow>
   files (snd (exec sched s)) (log_file_path (fst s)) = Some (c @ file_lines (writes sched s)) \<and>
   log_file (fst (exec sched s))"
proof (induction sched arbitrary: s c)
  case Nil
  then show ?case by simp
next
  case (Cons a sched)
  have len: "length (c @ file_lines (written_by a s)) < max_file_size_bytes (fst s)"
    using Cons.prems(4) by simp
  have st: "files (snd (act a s)) (log_file_path (fst s)) =
      Some (c @ file_lines (written_by a s)) \<and> log_file (fst (act a s))"
    using act_file [OF Cons.prems(1,2,3) len] .
  have cf: "log_file_path (fst (act a s)) = log_file_path (fst s)"
    "max_file_size_bytes (fst (act a s)) = max_file_size_bytes (fst s)"
    "log_target (fst (act a s)) = log_target (fst s)"
    using act_config [of a s] by simp_all
  have "files (snd (exec sched (act a s))) (log_file_path (fst (act a s))) =
      Some ((c @ file_lines (written_by a s)) @ file_lines (writes sched (act a s))) \<and>
      log_file (fst (exec sched (act a s)))"
    using Cons.prems st cf by (intro Cons.IH) simp_all
  then show ?case by (simp add: cf)
qed

lemma join_exited: "logging_thread i = Some WExit \<Longrightarrow> join n (i, w) = Some (i, w)"
  by (cases n) simp_all

lemma join_numeral:
  "join (numeral k) (i, w) =
     (if logging_thread i = Some WExit then Some (i, w)
      else join (pred_numeral k) (worker_step (i, w)))"
  by (simp add: numeral_eq_Suc)

text \<open>A worker that was alive and has been joined left an empty queue behind.\<close>

lemma join_drained:
  "join n s = Some s' \<Longrightarrow> logging_thread (fst s) \<noteq> Some WExit \<Longrightarrow>
   logging_thread (fst s') = Some WExit \<and> log_queue (fst s') = [] \<and> should_stop (fst s')"
proof (induction n arbitrary: s)
  case 0
  then show ?case by (cases s) (auto split: if_splits)
next
  case (Suc n)
  obtain i w where s: "s = (i, w)" by (cases s)
  have j: "join n (worker_step (i, w)) = Some s'"
    using Suc.prems s by simp
  show ?case
  proof (cases "logging_thread (fst (worker_step (i, w))) = Some WExit")
    case True
    then have e: "should_stop i \<and> log_queue i = [] \<and>
        worker_step (i, w) = (i\<lparr>logging_thread := Some WExit\<rparr>, w)"
      using worker_exit_step [of i w] Suc.prems(2) s by simp
    then have "s' = (i\<lparr>logging_thread := Some WExit\<rparr>, w)"
      using j by (simp add: join_exited)
    then show ?thesis using e by simp
  next
    case False
    then show ?thesis using Suc.IH [OF j] by simp
  qed
qed

lemma join_exec:
  "join n s = Some s' \<Longrightarrow> \<exists>k. s' = exec (replicate k Work) s"
proof (induction n arbitrary: s)
  case 0
  then have "s' = exec (replicate 0 Work) s"
    by (cases s) (auto split: if_splits)
  then show ?case by blast
next
  case (Suc n)
  obtain i w where s: "s = (i, w)" by (cases s)
  show ?case
  proof (cases "logging_thread i = Some WExit")
    case True
    then have "s' = exec (replicate 0 Work) s"
      using Suc.prems s by simp
    then show ?thesis by blast
  next
    case False
    then have "join n (worker_step s) = Some s'"
      using Suc.prems s by simp
    then obtain k where "s' = exec (replicate k Work) (worker_step s)"
      using Suc.IH by blast
    then have "s' = exec (replicate (Suc k) Work) s" by simp
    then show ?thesis by blast
  qed
qed

text \<open>
  With the stop flag set and no rotation notice to come, every step of a worker that can
  go on lowers the rank.
\<close>

lemma notified_write_targets:
  "notified (snd (snd (write_targets message (i, w)))) = notified w"
proof -
  have rb: "filter is_notify (trace (snd (rotate_backups k oldest p w'))) =
      filter is_notify (trace w')" for k oldest p w'
    by (induction k arbitrary: w') (simp_all add: Let_def fs_remove_def fs_rename_def)
  have rf: "notified (snd (rotate_files (i', w'))) = notified w'" for i' w'
    by (simp add: rotate_files.simps Let_def notified_def rb fs_rename_def
        split: open_outcome.splits)
  show ?thesis
    by (simp add: write_targets.simps Let_def rf del: console_write.simps)
       (simp add: notified_def file_write_def)
qed

lemma worker_step_rank:
  assumes "should_stop i" "runnable (i, w)" "no_notice (i, w)"
    and "logging_thread i \<noteq> Some WExit"
  shows "drain_rank (worker_step (i, w)) < drain_rank (i, w) \<and>
         should_stop (fst (worker_step (i, w))) \<and>
         runnable (worker_step (i, w)) \<and> no_notice (worker_step (i, w))"
proof (cases "\<exists>m. logging_thread i = Some (WWrite m)")
  case True
  then obtain m where m: "logging_thread i = Some (WWrite m)" by blast
  obtain r i' w' where wt: "write_targets m (i, w) = (r, (i', w'))"
    by (metis surj_pair)
  have cf: "log_queue i' = log_queue i" "should_stop i' = should_stop i"
    "current_log_level i' = current_log_level i" "log_target i' = log_target i"
    using write_targets_config [of m i w] wt by simp_all
  have st: "worker_step (i, w) =
      (i'\<lparr>logging_thread := Some (if r then WRotated else WRelock)\<rparr>, w')"
    using m wt by (simp add: worker_step.simps)
  show ?thesis
  proof (cases "level_value INFO < level_value (current_log_level i)")
    case True
    then show ?thesis using assms(1) m cf by (simp add: st)
  next
    case False
    then have off: "\<not> ((log_target i = FILE \<or> log_target i = BOTH) \<and> log_file i)"
      using assms(3) by auto
    have "write_targets m (i, w) = (False, (i, console_write m (i, w)))"
      using write_targets_no_file [OF off] .
    then have "r = False" "i' = i" using wt by simp_all
    then show ?thesis using assms(1,3) m by (simp add: st)
  qed
next
  case False
  then show ?thesis
    using assms
    by (auto simp: worker_step.simps split: option.splits worker_pc.splits list.splits)
qed

lemma join_terminates:
  "should_stop (fst s) \<Longrightarrow> runnable s \<Longrightarrow> no_notice s \<Longrightarrow> drain_rank s \<le> n \<Longrightarrow>
   \<exists>s'. join n s = Some s'"
proof (induction n arbitrary: s)
  case 0
  obtain i w where s: "s = (i, w)" by (cases s)
  have "logging_thread i = Some WExit"
    using 0 s by (auto split: option.splits worker_pc.splits if_splits)
  then show ?case by (simp add: s)
next
  case (Suc n)
  obtain i w where s: "s = (i, w)" by (cases s)
  show ?case
  proof (cases "logging_thread i = Some WExit")
    case True
    then show ?thesis by (simp add: s)
  next
    case False
    have st: "drain_rank (worker_step (i, w)) < drain_rank (i, w) \<and>
         should_stop (fst (worker_step (i, w))) \<and>
         runnable (worker_step (i, w)) \<and> no_notice (worker_step (i, w))"
      using worker_step_rank [of i w] Suc.prems False s by simp
    then have "drain_rank (worker_step (i, w)) \<le> n"
      using Suc.prems(4) s by simp
    then have "\<exists>s'. join n (worker_step (i, w)) = Some s'"
      using Suc.IH st by blast
    then show ?thesis using False by (simp add: s)
  qed
qed

lemma drain_rank_bound: "drain_rank (i, w) \<le> 3 * length (log_queue i) + 7"
  by (auto split: option.splits worker_pc.splits)

text \<open>
  The lost wake-up: a worker that has tested its predicate and is about to fall asleep
  when the stop request is made sleeps for good, for no notification follows.
\<close>

lemma asleep_for_good:
  "logging_thread i = Some (WBlocked n) \<Longrightarrow> notified w \<le> n \<Longrightarrow> join k (i, w) = None"
  by (induction k) (simp_all add: worker_step.simps)

lemma lost_wakeup:
  assumes "logging_thread i = Some WBlocking"
  shows "join n (request_stop (i, w)) = None"
proof (cases n)
  case 0
  then show ?thesis using assms by simp
next
  case (Suc k)
  let ?w = "w\<lparr>trace := trace w @ [EvNotifyAll]\<rparr>"
  have "worker_step (i\<lparr>should_stop := True\<rparr>, ?w) =
      (i\<lparr>should_stop := True, logging_thread := Some (WBlocked (notified ?w))\<rparr>, ?w)"
    using assms by (simp add: worker_step.simps)
  then show ?thesis
    using assms Suc asleep_for_good [of _ "notified ?w" ?w k] by simp
qed

text \<open>
  Claim C2. The step by which the worker leaves its loop is taken only at the test of the
  outer loop, with the stop flag set and the queue empty, and it changes nothing else. In
  every execution (worker steps interleaved with \<^verbatim>\<open>log\<close> calls, threshold changes, stop
  requests and other threads' notifications) that starts with the worker not returned and
  ends with the worker returned, the stop flag is set, and every record that was in the
  queue or in the worker's hands at the start has been written, in queue order and before
  any later one: the console shows exactly the records that the worker passed to
  \<^verbatim>\<open>writeLogMessage\<close> (when the console is a target), and the open log file has received
  a line for each of them (as long as it stays below the ceiling, so that no rotation
  moves it). The same holds for the run that \<^verbatim>\<open>join\<close> waits for, which ends with the
  queue empty. Whether the worker returns at all depends on where the stop request finds
  it: a worker that can go on returns within \<open>3 * length queue + 7\<close> steps when no
  rotation notice can reach the queue, while one that has just tested its predicate and
  is about to fall asleep misses the notification and never returns.
\<close>

theorem worker_exit:
  "(logging_thread i \<noteq> Some WExit \<and>
    logging_thread (fst (worker_step (i, w))) = Some WExit \<longrightarrow>
      should_stop i \<and> log_queue i = [] \<and> logging_thread i = Some WTop \<and>
      worker_step (i, w) = (i\<lparr>logging_thread := Some WExit\<rparr>, w)) \<and>
   (logging_thread i \<noteq> Some WExit \<and>
    logging_thread (fst (exec sched (i, w))) = Some WExit \<longrightarrow>
      should_stop (fst (exec sched (i, w))) \<and>
      (\<exists>ext. writes sched (i, w) = pending (i, w) @ ext) \<and>
      cout (snd (exec sched (i, w))) =
        cout w @ (if log_target i = FILE then [] else writes sched (i, w)) \<and>
      (log_target i \<noteq> CONSOLE \<and> log_file i \<and> files w (log_file_path i) = Some c \<and>
       length (c @ file_lines (writes sched (i, w))) < max_file_size_bytes i \<longrightarrow>
         files (snd (exec sched (i, w))) (log_file_path i) =
           Some (c @ file_lines (writes sched (i, w))))) \<and>
   (logging_thread i \<noteq> Some WExit \<and> join n (i, w) = Some (i', w') \<longrightarrow>
      logging_thread i' = Some WExit \<and> log_queue i' = [] \<and> should_stop i' \<and>
      (\<exists>k. (i', w') = exec (replicate k Work) (i, w))) \<and>
   (runnable (request_stop (i, w)) \<and> no_notice (i, w) \<longrightarrow>
      (\<exists>s'. join (3 * length (log_queue i) + 7) (request_stop (i, w)) = Some s')) \<and>
   (logging_thread i = Some WBlocking \<longrightarrow> join n (request_stop (i, w)) = None)"
proof (intro conjI impI)
  assume a: "logging_thread i \<noteq> Some WExit \<and>
    logging_thread (fst (worker_step (i, w))) = Some WExit"
  show "should_stop i" "log_queue i = []" "logging_thread i = Some WTop"
    "worker_step (i, w) = (i\<lparr>logging_thread := Some WExit\<rparr>, w)"
    using worker_exit_step [of i w] a by simp_all
next
  assume a: "logging_thread i \<noteq> Some WExit \<and>
    logging_thread (fst (exec sched (i, w))) = Some WExit"
  show "should_stop (fst (exec sched (i, w)))"
    "\<exists>ext. writes sched (i, w) = pending (i, w) @ ext"
    using exec_exit [of "(i, w)" sched] a by simp_all
  show "cout (snd (exec sched (i, w))) =
      cout w @ (if log_target i = FILE then [] else writes sched (i, w))"
    using exec_cout [of sched "(i, w)"] by simp
  show "files (snd (exec sched (i, w))) (log_file_path i) =
      Some (c @ file_lines (writes sched (i, w)))"
    if "log_target i \<noteq> CONSOLE \<and> log_file i \<and> files w (log_file_path i) = Some c \<and>
       length (c @ file_lines (writes sched (i, w))) < max_file_size_bytes i"
    using exec_file [of "(i, w)" c sched] that by simp
next
  assume a: "logging_thread i \<noteq> Some WExit \<and> join n (i, w) = Some (i', w')"
  have d: "logging_thread i' = Some WExit \<and> log_queue i' = [] \<and> should_stop i'"
    using join_drained [of n "(i, w)" "(i', w')"] a by simp
  show "logging_thread i' = Some WExit" "log_queue i' = []" "should_stop i'"
    using d by simp_all
  show "\<exists>k. (i', w') = exec (replicate k Work) (i, w)"
    using join_exec a by blast
next
  assume a: "runnable (request_stop (i, w)) \<and> no_notice (i, w)"
  have "drain_rank (request_stop (i, w)) \<le> 3 * length (log_queue i) + 7"
    using drain_rank_bound [of "i\<lparr>should_stop := True\<rparr>"] by simp
  moreover have "no_notice (request_stop (i, w))" using a by simp
  ultimately show "\<exists>s'. join (3 * length (log_queue i) + 7) (request_stop (i, w)) = Some s'"
    using join_terminates [of "request_stop (i, w)" "3 * length (log_queue i) + 7"] a
    by simp
next
  assume "logging_thread i = Some WBlocking"
  then show "join n (request_stop (i, w)) = None" by (rule lost_wakeup)
qed

theorem worker_exit_witness:
  "logging_thread top0 \<noteq> Some WExit \<and>
   logging_thread (fst (worker_step (top0, w1))) = Some WExit \<and>
   should_stop top0 \<and> log_queue top0 = [] \<and>
   logging_thread both0 \<noteq> Some WExit \<and>
   logging_thread (fst (exec sched0 (both0, wlogs))) = Some WExit \<and>
   \<not> should_stop (fst (exec (take 2 sched0) (both0, wlogs))) \<and>
   pending (exec (take 3 sched0) (both0, wlogs)) = [''a'', ''b''] \<and>
   writes sched0 (both0, wlogs) = [''a'', ''b''] \<and>
   log_queue (fst (exec sched0 (both0, wlogs))) = [] \<and>
   cout (snd (exec sched0 (both0, wlogs))) = [''a'', ''b''] \<and>
   log_target both0 \<noteq> CONSOLE \<and> log_file both0 \<and>
   files wlogs (log_file_path both0) = Some (''old'' @ [CHR 0x0A]) \<and>
   length ((''old'' @ [CHR 0x0A]) @ file_lines (writes sched0 (both0, wlogs)))
     < max_file_size_bytes both0 \<and>
   files (snd (exec sched0 (both0, wlogs))) ''logs/app.log'' =
     Some (''old'' @ [CHR 0x0A] @ ''a'' @ [CHR 0x0A] @ ''b'' @ [CHR 0x0A]) \<and>
   runnable (request_stop (drain0, w1)) \<and> no_notice (drain0, w1) \<and>
   (\<exists>s'. join (3 * length (log_queue drain0) + 7) (request_stop (drain0, w1)) = Some s' \<and>
      cout (snd s') = [''a''] \<and> log_queue (fst s') = []) \<and>
   logging_thread (run0\<lparr>logging_thread := Some WBlocking\<rparr>) = Some WBlocking \<and>
   join 100 (request_stop (run0\<lparr>logging_thread := Some WBlocking\<rparr>, w1)) = None"
proof -
  have 1: "logging_thread top0 \<noteq> Some WExit \<and>
      logging_thread (fst (worker_step (top0, w1))) = Some WExit"
    by (simp add: top0_def run0_def run_eval)
  have 2: "should_stop top0 \<and> log_queue top0 = []"
    using worker_exit [where i = top0 and w = w1] 1 by blast
  have 3: "logging_thread both0 \<noteq> Some WExit \<and>
      logging_thread (fst (exec sched0 (both0, wlogs))) = Some WExit"
    by (simp add: sched0_def both0_def log0_def wlogs_def w0_def run_eval)
  have 4: "\<not> should_stop (fst (exec (take 2 sched0) (both0, wlogs))) \<and>
      pending (exec (take 3 sched0) (both0, wlogs)) = [''a'', ''b''] \<and>
      writes sched0 (both0, wlogs) = [''a'', ''b''] \<and>
      log_queue (fst (exec sched0 (both0, wlogs))) = []"
    by (simp add: sched0_def both0_def log0_def wlogs_def w0_def run_eval)
  have wr: "writes sched0 (both0, wlogs) = [''a'', ''b'']"
    using 4 by blast
  have 5: "cout (snd (exec sched0 (both0, wlogs))) =
      cout wlogs @ (if log_target both0 = FILE then [] else writes sched0 (both0, wlogs))"
    using worker_exit [where i = both0 and w = wlogs and sched = sched0] 3 by blast
  have 6: "cout (snd (exec sched0 (both0, wlogs))) = [''a'', ''b'']"
    unfolding 5 wr by (simp add: both0_def log0_def wlogs_def w0_def)
  have 7: "log_target both0 \<noteq> CONSOLE \<and> log_file both0 \<and>
      files wlogs (log_file_path both0) = Some (''old'' @ [CHR 0x0A]) \<and>
      length ((''old'' @ [CHR 0x0A]) @ file_lines (writes sched0 (both0, wlogs)))
        < max_file_size_bytes both0"
    unfolding wr by (simp add: both0_def log0_def wlogs_def w0_def file_lines_def)
  have 8: "files (snd (exec sched0 (both0, wlogs))) (log_file_path both0) =
      Some ((''old'' @ [CHR 0x0A]) @ file_lines (writes sched0 (both0, wlogs)))"
    using worker_exit [where i = both0 and w = wlogs and sched = sched0
        and c = "''old'' @ [CHR 0x0A]"] 3 7 by blast
  have 9: "files (snd (exec sched0 (both0, wlogs))) ''logs/app.log'' =
      Some (''old'' @ [CHR 0x0A] @ ''a'' @ [CHR 0x0A] @ ''b'' @ [CHR 0x0A])"
    using 8 unfolding wr by (simp add: both0_def log0_def file_lines_def)
  have 10: "runnable (request_stop (drain0, w1)) \<and> no_notice (drain0, w1)"
    by (simp add: drain0_def run0_def)
  have 11: "\<exists>s'. join (3 * length (log_queue drain0) + 7) (request_stop (drain0, w1)) = Some s'"
    using worker_exit [where i = drain0 and w = w1] 10 by blast
  have 12: "join 10 (request_stop (drain0, w1)) = Some s' \<Longrightarrow>
      cout (snd s') = [''a''] \<and> log_queue (fst s') = []" for s'
    by (simp add: drain0_def run0_def w1_def w0_def run_eval join_numeral) auto
  have 13: "3 * length (log_queue drain0) + 7 = 10"
    by (simp add: drain0_def run0_def)
  have 14: "logging_thread (run0\<lparr>logging_thread := Some WBlocking\<rparr>) = Some WBlocking"
    by simp
  have 15: "join 100 (request_stop (run0\<lparr>logging_thread := Some WBlocking\<rparr>, w1)) = None"
    using worker_exit [where i = "run0\<lparr>logging_thread := Some WBlocking\<rparr>" and w = w1
        and n = 100] 14 by blast
  have 16: "\<exists>s'. join (3 * length (log_queue drain0) + 7) (request_stop (drain0, w1)) = Some s' \<and>
      cout (snd s') = [''a''] \<and> log_queue (fst s') = []"
    using 11 12 13 by metis
  show ?thesis using 1 2 3 4 6 7 9 10 16 14 15 by blast
qed

subsection \<open>Flush\<close>
















end
